theory Spec2Isabelle
  imports Main "HOL-Library.Multiset_Order"
begin

section \<open>Strings, buffers and JavaScript values\<close>

text \<open>
  The validation service (\<^verbatim>\<open>ValidationService.ts\<close>) is embedded function by function.
  A JavaScript string is a \<open>string\<close> (characters are 8-bit, so code units from 256 on
  are not represented), a \<open>Buffer\<close> is a list of bytes written as characters. A digest
  is what \<^verbatim>\<open>Web3.utils.keccak256\<close> returns for a string: a hexadecimal string, or
  \<^verbatim>\<open>null\<close> (\<open>None\<close>), which the library returns for empty input. Logging is left
  out: it changes no result.
\<close>

type_synonym Buffer = string

type_synonym hash = "string option"

text \<open>
  Every way a call can end without a value. \<open>NoMetadataFound\<close> is the
  \<^verbatim>\<open>Error\<close> thrown by \<^verbatim>\<open>findMetadataFiles\<close>, \<open>NonexistentPath\<close> the one thrown by
  \<^verbatim>\<open>traversePathRecursively\<close>, \<open>TypeError\<close> what JavaScript throws on a property
  read on \<^verbatim>\<open>null\<close> or \<^verbatim>\<open>undefined\<close>, on a call of what is no function, on
  \<^verbatim>\<open>for ... of\<close> over what cannot be iterated and on an object that cannot be
  converted to a primitive value. \<open>AdmZipError\<close> is an exception of the archive
  library, \<open>Web3Error\<close> one of the hashing library, \<open>FetchRejected\<close> a rejected
  promise of \<^verbatim>\<open>fetch\<close>.
\<close>

datatype error =
  NoMetadataFound | TypeError | NonexistentPath | AdmZipError | Web3Error | FetchRejected

text \<open>
  A value produced by \<^verbatim>\<open>JSON.parse\<close>. A number is kept as the text
  \<^verbatim>\<open>Number.prototype.toString\<close> gives for it (so \<^verbatim>\<open>0\<close> and \<^verbatim>\<open>-0\<close> are one value,
  which nothing here tells apart); the properties of an object are listed in the order
  \<^verbatim>\<open>for ... in\<close> enumerates them, each key once. A value of the program is a
  \<open>jsval\<close>: \<open>None\<close> is \<^verbatim>\<open>undefined\<close>.
\<close>

datatype json =
    JNull
  | JBool bool
  | JNumber string
  | JString string
  | JArray "json list"
  | JObject "(string \<times> json) list"

type_synonym jsval = "json option"

fun truthy :: "jsval \<Rightarrow> bool" where
  "truthy None = False"
| "truthy (Some JNull) = False"
| "truthy (Some (JBool b)) = b"
| "truthy (Some (JNumber r)) = (r \<noteq> ''0'')"
| "truthy (Some (JString s)) = (s \<noteq> [])"
| "truthy (Some (JArray xs)) = True"
| "truthy (Some (JObject kvs)) = True"

text \<open>
  \<^verbatim>\<open>obj.key\<close> for the keys this file reads (\<^verbatim>\<open>language\<close>, \<^verbatim>\<open>compiler\<close>,
  \<^verbatim>\<open>settings\<close>, \<^verbatim>\<open>compilationTarget\<close>, \<^verbatim>\<open>sources\<close>, \<^verbatim>\<open>content\<close>,
  \<^verbatim>\<open>keccak256\<close>, \<^verbatim>\<open>urls\<close>, none of which a prototype defines): a TypeError on
  \<^verbatim>\<open>null\<close> and \<^verbatim>\<open>undefined\<close>, the own property of an object, \<^verbatim>\<open>undefined\<close> on
  every other value.
\<close>

fun get_prop :: "jsval \<Rightarrow> string \<Rightarrow> error + jsval" where
  "get_prop None key = Inl TypeError"
| "get_prop (Some JNull) key = Inl TypeError"
| "get_prop (Some (JObject kvs)) key = Inr (map_of kvs key)"
| "get_prop (Some v) key = Inr None"

text \<open>\<^verbatim>\<open>Object.keys(x).length\<close>: a TypeError on \<^verbatim>\<open>null\<close> and \<^verbatim>\<open>undefined\<close>.\<close>

fun Object_keys_length :: "jsval \<Rightarrow> error + nat" where
  "Object_keys_length None = Inl TypeError"
| "Object_keys_length (Some JNull) = Inl TypeError"
| "Object_keys_length (Some (JObject kvs)) = Inr (length kvs)"
| "Object_keys_length (Some (JArray xs)) = Inr (length xs)"
| "Object_keys_length (Some (JString s)) = Inr (length s)"
| "Object_keys_length (Some v) = Inr 0"

fun join_comma :: "string list \<Rightarrow> string" where
  "join_comma [] = []"
| "join_comma [s] = s"
| "join_comma (s # t # ss) = s @ '','' @ join_comma (t # ss)"

text \<open>
  ECMAScript's ToString, which \<^verbatim>\<open>JSON.parse\<close> applies to an argument that is no
  string and \<^verbatim>\<open>==\<close> to an object compared with a string. An array is its elements
  joined by commas, \<^verbatim>\<open>null\<close> elements empty. An object is \<^verbatim>\<open>[object Object]\<close>,
  unless it has a property \<^verbatim>\<open>toString\<close> of its own: a parsed value is no function,
  the conversion finds no method that returns a primitive value and throws a TypeError.
\<close>

fun ToString :: "json \<Rightarrow> error + string"
  and ToString_elements :: "json list \<Rightarrow> error + string list" where
  "ToString JNull = Inr ''null''"
| "ToString (JBool b) = Inr (if b then ''true'' else ''false'')"
| "ToString (JNumber r) = Inr r"
| "ToString (JString s) = Inr s"
| "ToString (JArray xs) =
     (case ToString_elements xs of Inl e \<Rightarrow> Inl e | Inr ss \<Rightarrow> Inr (join_comma ss))"
| "ToString (JObject kvs) =
     (if ''toString'' \<in> fst ` set kvs then Inl TypeError else Inr ''[object Object]'')"
| "ToString_elements [] = Inr []"
| "ToString_elements (x # xs) =
     (case (if x = JNull then Inr [] else ToString x) of
        Inl e \<Rightarrow> Inl e
      | Inr s \<Rightarrow> (case ToString_elements xs of Inl e \<Rightarrow> Inl e | Inr ss \<Rightarrow> Inr (s # ss)))"

text \<open>The decimal numeral of an array index, as \<^verbatim>\<open>for ... in\<close> gives it.\<close>

fun decimal :: "nat \<Rightarrow> string" where
  "decimal n =
     (if n < 10 then [char_of (48 + n)]
      else decimal (n div 10) @ [char_of (48 + n mod 10)])"

declare decimal.simps [simp del]

text \<open>
  The keys and values \<^verbatim>\<open>for (const key in x)\<close> visits with \<^verbatim>\<open>x[key]\<close>: the
  properties of an object, the indices of an array or of a string; nothing for a number,
  a boolean, \<^verbatim>\<open>null\<close> and \<^verbatim>\<open>undefined\<close>.
\<close>

definition for_in :: "jsval \<Rightarrow> (string \<times> json) list" where
  "for_in x =
     (case x of
        Some (JObject kvs) \<Rightarrow> kvs
      | Some (JArray xs) \<Rightarrow> zip (map decimal [0..<length xs]) xs
      | Some (JString s) \<Rightarrow> zip (map decimal [0..<length s]) (map (\<lambda>c. JString [c]) s)
      | _ \<Rightarrow> [])"

text \<open>
  The values \<^verbatim>\<open>for (const x of v)\<close> visits: the elements of an array, the characters
  of a string; a TypeError on every other value.
\<close>

definition for_of :: "jsval \<Rightarrow> error + json list" where
  "for_of v =
     (case v of
        Some (JArray xs) \<Rightarrow> Inr xs
      | Some (JString s) \<Rightarrow> Inr (map (\<lambda>c. JString [c]) s)
      | _ \<Rightarrow> Inl TypeError)"

definition startsWith :: "string \<Rightarrow> string \<Rightarrow> bool" where
  "startsWith s p = (take (length p) s = p)"

definition whitespace :: "char \<Rightarrow> bool" where
  "whitespace c = (c \<in> set [CHR 0x09, CHR 0x0A, CHR 0x0B, CHR 0x0C, CHR 0x0D, CHR 0x20, CHR 0xA0])"

definition trim :: "string \<Rightarrow> string" where
  "trim s = rev (dropWhile whitespace (rev (dropWhile whitespace s)))"

definition line_terminator :: "char \<Rightarrow> bool" where
  "line_terminator c = (c = CHR 0x0A \<or> c = CHR 0x0D)"

text \<open>\<^verbatim>\<open>s.replace(pat, rep)\<close> with a string pattern: the first occurrence only.\<close>

fun replace_first :: "string \<Rightarrow> string \<Rightarrow> string \<Rightarrow> string" where
  "replace_first pat rep [] = (if pat = [] then rep else [])"
| "replace_first pat rep (c # cs) =
     (if startsWith (c # cs) pat then rep @ drop (length pat) (c # cs)
      else c # replace_first pat rep cs)"

section \<open>The services the code calls\<close>

text \<open>
  The response of \<^verbatim>\<open>fetch(url)\<close>: its status and its body text, or a rejected
  promise (no connection, and also when reading the body of a 200 response fails).
\<close>

datatype fetch_result = Rejected | Response nat string

text \<open>
  A directory tree on disk, and what the archive library makes of a buffer:
  \<^verbatim>\<open>new AdmZip(buffer)\<close> throws (\<open>NotZip\<close>); or it returns and \<^verbatim>\<open>extractAllTo\<close>
  throws (\<open>Corrupt\<close>); or both return, and \<open>Zip t\<close> gives the temporary directory
  after the extraction (\<open>None\<close> when the path does not exist: an archive without
  entries).
\<close>

datatype fsnode = File Buffer | Directory "fsnode list"

datatype zip = NotZip | Corrupt | Zip "fsnode option"

text \<open>
  The libraries and the parts of the language that compute with numbers are not part of
  the repository; they are parameters of the model. \<open>Web3_keccak256\<close> is the library on
  a string, \<open>Web3_keccak256_untyped\<close> on every other value (the declared type of its
  argument excludes them, and it may throw). \<open>ToNumber\<close> is the number ECMAScript reads
  in a string, written as \<^verbatim>\<open>Number.prototype.toString\<close> writes it (\<^verbatim>\<open>NaN\<close> when
  there is none). \<open>fetch\<close> answers a request from the requests made so far and the URL
  asked.
\<close>

record env =
  JSON_parse :: "string \<Rightarrow> json option"
  Web3_keccak256 :: "string \<Rightarrow> hash"
  Web3_keccak256_untyped :: "jsval \<Rightarrow> error + hash"
  ToNumber :: "string \<Rightarrow> string"
  fetch :: "string list \<Rightarrow> string \<Rightarrow> fetch_result"
  AdmZip :: "Buffer \<Rightarrow> zip"
  Buffer_toString :: "Buffer \<Rightarrow> string"

section \<open>The classes of the file\<close>

text \<open>
  \<^verbatim>\<open>PathContent\<close> declares \<^verbatim>\<open>content: string\<close>, and the files read from buffers
  hold strings (\<open>string PathContent\<close>). \<^verbatim>\<open>rearrangeSources\<close> also stores what it reads
  in a metadata document, which may be any value (\<open>jsval PathContent\<close>).
\<close>

record PathBuffer =
  pb_path :: "string option"
  buffer :: Buffer

record 'c PathContent =
  path :: "string option"
  content :: 'c

section \<open>Recognising metadata\<close>

definition NESTED_METADATA_PREFIX :: string where
  "NESTED_METADATA_PREFIX =
     [CHR 0x22] @ ''{'' @ [CHR 0x5C, CHR 0x22] @ ''compiler'' @ [CHR 0x5C, CHR 0x22] @ '':{''
       @ [CHR 0x5C, CHR 0x22] @ ''version'' @ [CHR 0x5C, CHR 0x22]"

definition NESTED_METADATA_SUFFIX :: string where
  "NESTED_METADATA_SUFFIX =
     ''},'' @ [CHR 0x5C, CHR 0x22] @ ''version'' @ [CHR 0x5C, CHR 0x22] @ '':1}'' @ [CHR 0x22]"

text \<open>
  \<^verbatim>\<open>NESTED_METADATA_REGEX\<close> is the prefix, a lazy \<^verbatim>\<open>.*?\<close> and the suffix.
  \<open>lazy_until\<close> matches \<^verbatim>\<open>.*?\<close> followed by the suffix at the head of a string and
  returns the text matched; \<open>NESTED_METADATA_match\<close> is \<^verbatim>\<open>content.match(...)[0]\<close>,
  the leftmost match (\<open>None\<close> for \<^verbatim>\<open>null\<close>).
\<close>

fun lazy_until :: "string \<Rightarrow> string \<Rightarrow> string option" where
  "lazy_until suffix [] = (if suffix = [] then Some [] else None)"
| "lazy_until suffix (c # cs) =
     (if startsWith (c # cs) suffix then Some suffix
      else if line_terminator c then None
      else map_option ((#) c) (lazy_until suffix cs))"

definition match_here :: "string \<Rightarrow> string option" where
  "match_here s =
     (if startsWith s NESTED_METADATA_PREFIX
      then map_option ((@) NESTED_METADATA_PREFIX)
             (lazy_until NESTED_METADATA_SUFFIX (drop (length NESTED_METADATA_PREFIX) s))
      else None)"

fun NESTED_METADATA_match :: "string \<Rightarrow> string option" where
  "NESTED_METADATA_match [] = match_here []"
| "NESTED_METADATA_match (c # cs) =
     (case match_here (c # cs) of Some m \<Rightarrow> Some m | None \<Rightarrow> NESTED_METADATA_match cs)"

definition isMetadata :: "json \<Rightarrow> error + bool" where
  "isMetadata obj =
     (case get_prop (Some obj) ''language'' of
        Inl e \<Rightarrow> Inl e
      | Inr language \<Rightarrow>
          if language = Some (JString ''Solidity'')
          then (case get_prop (Some obj) ''compiler'' of
                  Inl e \<Rightarrow> Inl e
                | Inr compiler \<Rightarrow> Inr (truthy compiler))
          else Inr False)"

text \<open>
  The \<^verbatim>\<open>try\<close> block of \<^verbatim>\<open>extractMetadataFromString\<close> catches the SyntaxError of
  \<^verbatim>\<open>JSON.parse\<close> (\<open>None\<close>), the TypeError of \<^verbatim>\<open>isMetadata\<close> and the TypeError of
  converting the first result to a string; all end in \<^verbatim>\<open>null\<close>.
\<close>

definition extractMetadataFromString :: "env \<Rightarrow> string \<Rightarrow> json option" where
  "extractMetadataFromString E file =
     (case JSON_parse E file of
        None \<Rightarrow> None
      | Some obj \<Rightarrow>
          (case isMetadata obj of
             Inl e \<Rightarrow> None
           | Inr recognised \<Rightarrow>
               if recognised then Some obj
               else (case ToString obj of
                       Inl e \<Rightarrow> None
                     | Inr text \<Rightarrow>
                         (case JSON_parse E text of
                            None \<Rightarrow> None
                          | Some obj2 \<Rightarrow>
                              (case isMetadata obj2 of
                                 Inl e \<Rightarrow> None
                               | Inr recognised2 \<Rightarrow> if recognised2 then Some obj2 else None)))))"

text \<open>
  \<^verbatim>\<open>Object.keys(metadata.settings.compilationTarget).length\<close>, which
  \<^verbatim>\<open>findMetadataFiles\<close> computes for every recognised document, outside any
  \<^verbatim>\<open>try\<close>.
\<close>

definition compilationTargetsNumber :: "json \<Rightarrow> error + nat" where
  "compilationTargetsNumber metadata =
     (case get_prop (Some metadata) ''settings'' of
        Inl e \<Rightarrow> Inl e
      | Inr settings \<Rightarrow>
          (case get_prop settings ''compilationTarget'' of
             Inl e \<Rightarrow> Inl e
           | Inr compilationTarget \<Rightarrow> Object_keys_length compilationTarget))"

definition metadata_of_file :: "env \<Rightarrow> string PathContent \<Rightarrow> json option" where
  "metadata_of_file E file =
     (case extractMetadataFromString E (content file) of
        Some metadata \<Rightarrow> Some metadata
      | None \<Rightarrow>
          (case NESTED_METADATA_match (content file) of
             None \<Rightarrow> None
           | Some matchRes \<Rightarrow> extractMetadataFromString E matchRes))"

fun findMetadataFiles_loop ::
  "env \<Rightarrow> string PathContent list \<Rightarrow> json list \<Rightarrow> error + json list" where
  "findMetadataFiles_loop E [] metadataCollection = Inr metadataCollection"
| "findMetadataFiles_loop E (file # files) metadataCollection =
     (case metadata_of_file E file of
        None \<Rightarrow> findMetadataFiles_loop E files metadataCollection
      | Some metadata \<Rightarrow>
          (case compilationTargetsNumber metadata of
             Inl e \<Rightarrow> Inl e
           | Inr n \<Rightarrow> findMetadataFiles_loop E files (metadataCollection @ [metadata])))"

definition findMetadataFiles :: "env \<Rightarrow> string PathContent list \<Rightarrow> error + json list" where
  "findMetadataFiles E files =
     (case findMetadataFiles_loop E files [] of
        Inl e \<Rightarrow> Inl e
      | Inr metadataCollection \<Rightarrow>
          if metadataCollection = [] then Inl NoMetadataFound else Inr metadataCollection)"

section \<open>Expanding archives\<close>

text \<open>
  \<^verbatim>\<open>traversePathRecursively\<close> throws on a path that does not exist, applies the
  worker to a file and visits the entries of a directory in order. In \<^verbatim>\<open>unzip\<close> the
  worker reads the file and pushes a \<^verbatim>\<open>PathBuffer\<close> carrying the path of the archive;
  the second traversal only deletes the temporary directory. \<open>unzip\<close> returns what the
  call pushes onto \<^verbatim>\<open>files\<close>.
\<close>

fun traverse_files :: "fsnode \<Rightarrow> Buffer list" where
  "traverse_files (File b) = [b]"
| "traverse_files (Directory nodes) = concat (map traverse_files nodes)"

definition traversePathRecursively :: "fsnode option \<Rightarrow> error + Buffer list" where
  "traversePathRecursively p =
     (case p of None \<Rightarrow> Inl NonexistentPath | Some node \<Rightarrow> Inr (traverse_files node))"

definition unzip :: "env \<Rightarrow> PathBuffer \<Rightarrow> error + PathBuffer list" where
  "unzip E zippedFile =
     (case AdmZip E (buffer zippedFile) of
        NotZip \<Rightarrow> Inl AdmZipError
      | Corrupt \<Rightarrow> Inl AdmZipError
      | Zip tmpDir \<Rightarrow>
          (case traversePathRecursively tmpDir of
             Inl e \<Rightarrow> Inl e
           | Inr contents \<Rightarrow>
               Inr (map (\<lambda>b. \<lparr>pb_path = pb_path zippedFile, buffer = b\<rparr>) contents)))"

definition isZip :: "env \<Rightarrow> Buffer \<Rightarrow> bool" where
  "isZip E file = (AdmZip E file \<noteq> NotZip)"

text \<open>
  \<^verbatim>\<open>findInputFiles\<close> iterates over \<^verbatim>\<open>files\<close> with \<^verbatim>\<open>for ... of\<close> while
  \<^verbatim>\<open>unzip\<close> pushes onto the same array, so the iteration reaches what was pushed.
  The first argument of the loop is the part of the array not yet visited. The loop need
  not end (an archive may contain itself): not returning is \<open>None\<close>.
\<close>

partial_function (option) findInputFiles_loop ::
  "env \<Rightarrow> PathBuffer list \<Rightarrow> PathBuffer list \<Rightarrow> (error + PathBuffer list) option" where
  "findInputFiles_loop E files inputFiles =
     (case files of
        [] \<Rightarrow> Some (Inr inputFiles)
      | file # rest \<Rightarrow>
          if isZip E (buffer file)
          then (case unzip E file of
                  Inl e \<Rightarrow> Some (Inl e)
                | Inr extracted \<Rightarrow> findInputFiles_loop E (rest @ extracted) inputFiles)
          else findInputFiles_loop E rest (inputFiles @ [file]))"

declare findInputFiles_loop.simps [code]

definition findInputFiles :: "env \<Rightarrow> PathBuffer list \<Rightarrow> (error + PathBuffer list) option" where
  "findInputFiles E files = findInputFiles_loop E files []"

section \<open>Fetching\<close>

definition IPFS_PREFIX :: string where
  "IPFS_PREFIX = ''dweb:/ipfs/''"

text \<open>
  \<^verbatim>\<open>GITHUB_REGEX.test(s)\<close> for \<^verbatim>\<open>/^https?:\/\/github.com/\<close>: the dot is not
  escaped and matches any character that does not end a line.
\<close>

definition GITHUB_REGEX_test :: "string \<Rightarrow> bool" where
  "GITHUB_REGEX_test s =
     (startsWith s ''http'' \<and>
      (let r = drop 4 s;
           r' = (if startsWith r ''s'' then drop 1 r else r)
       in startsWith r' ''://github'' \<and>
          (case drop 9 r' of
             [] \<Rightarrow> False
           | c # rest \<Rightarrow> \<not> line_terminator c \<and> startsWith rest ''com'')))"

text \<open>
  \<^verbatim>\<open>calculated === hash\<close> for a digest and any value: the same string, or both
  \<^verbatim>\<open>null\<close>.
\<close>

definition strictly_equal :: "hash \<Rightarrow> jsval \<Rightarrow> bool" where
  "strictly_equal calculated v =
     (v = Some (case calculated of None \<Rightarrow> JNull | Some s \<Rightarrow> JString s))"

text \<open>
  Every function that may fetch takes the list of the URLs requested so far and returns
  it extended: the list records what was dereferenced. The hash comes from the metadata
  document and may be any value.
\<close>

definition performFetch ::
  "env \<Rightarrow> string \<Rightarrow> string \<Rightarrow> jsval \<Rightarrow> string list \<Rightarrow> error + (string option \<times> string list)" where
  "performFetch E fileName url hash requested =
     (case fetch E requested url of
        Rejected \<Rightarrow> Inl FetchRejected
      | Response status text \<Rightarrow>
          if status = 200
          then (if strictly_equal (Web3_keccak256 E text) hash
                then Inr (Some text, requested @ [url])
                else Inr (None, requested @ [url]))
          else Inr (None, requested @ [url]))"

definition ipfs_gateway :: string where
  "ipfs_gateway = ''https://ipfs.infura.io:5001/api/v0/cat?arg=''"

text \<open>
  The loop \<^verbatim>\<open>for (const url of urls)\<close> of \<^verbatim>\<open>processFetching\<close>, over the values an
  iteration of \<^verbatim>\<open>urls\<close> gives: \<^verbatim>\<open>url.startsWith\<close> is a function on a string only.
\<close>

fun fetch_ipfs ::
  "env \<Rightarrow> string \<Rightarrow> json list \<Rightarrow> jsval \<Rightarrow> string list \<Rightarrow> error + (string option \<times> string list)" where
  "fetch_ipfs E fileName [] hash requested = Inr (None, requested)"
| "fetch_ipfs E fileName (JString url # urls) hash requested =
     (if startsWith url IPFS_PREFIX
      then performFetch E fileName
             (ipfs_gateway @ drop (length IPFS_PREFIX) url) hash requested
      else fetch_ipfs E fileName urls hash requested)"
| "fetch_ipfs E fileName (url # urls) hash requested = Inl TypeError"

definition processFetching ::
  "env \<Rightarrow> string \<Rightarrow> jsval \<Rightarrow> jsval \<Rightarrow> string list \<Rightarrow> error + (string option \<times> string list)" where
  "processFetching E fileName0 urls hash requested =
     (let fileName = trim fileName0 in
      if GITHUB_REGEX_test fileName
      then performFetch E fileName
             (replace_first ''github'' ''raw.githubusercontent'' fileName) hash requested
      else if startsWith fileName ''@openzeppelin''
      then (case for_of urls of
              Inl e \<Rightarrow> Inl e
            | Inr us \<Rightarrow> fetch_ipfs E fileName us hash requested)
      else Inr (None, requested))"

text \<open>
  The URL \<^verbatim>\<open>processFetching\<close> passes to \<^verbatim>\<open>performFetch\<close> for a declared path and
  its URLs, read off the function: \<open>None\<close> when it returns \<^verbatim>\<open>null\<close> without a
  request, an error when it throws before any. \<open>first_ipfs\<close> is the first URL with the
  prefix, as the loop finds it.
\<close>

fun first_ipfs :: "json list \<Rightarrow> error + string option" where
  "first_ipfs [] = Inr None"
| "first_ipfs (JString url # urls) =
     (if startsWith url IPFS_PREFIX then Inr (Some url) else first_ipfs urls)"
| "first_ipfs (url # urls) = Inl TypeError"

definition fetch_target :: "string \<Rightarrow> jsval \<Rightarrow> error + string option" where
  "fetch_target fileName0 urls =
     (let fileName = trim fileName0 in
      if GITHUB_REGEX_test fileName
      then Inr (Some (replace_first ''github'' ''raw.githubusercontent'' fileName))
      else if startsWith fileName ''@openzeppelin''
      then (case for_of urls of
              Inl e \<Rightarrow> Inl e
            | Inr us \<Rightarrow>
                (case first_ipfs us of
                   Inl e \<Rightarrow> Inl e
                 | Inr first \<Rightarrow>
                     Inr (map_option (\<lambda>url. ipfs_gateway @ drop (length IPFS_PREFIX) url) first)))
      else Inr None)"

section \<open>Reconciling the declared sources\<close>

text \<open>
  \<^verbatim>\<open>Web3.utils.keccak256(file.content)\<close> for the content of a metadata document, which
  may be any value.
\<close>

definition keccak256_of :: "env \<Rightarrow> jsval \<Rightarrow> error + hash" where
  "keccak256_of E v =
     (case v of
        Some (JString s) \<Rightarrow> Inr (Web3_keccak256 E s)
      | _ \<Rightarrow> Web3_keccak256_untyped E v)"

text \<open>
  \<^verbatim>\<open>calculated == hash\<close>, the negation of the test \<^verbatim>\<open>!=\<close> of \<^verbatim>\<open>rearrangeSources\<close>,
  for a digest and any value. \<^verbatim>\<open>null\<close> equals \<^verbatim>\<open>null\<close> and \<^verbatim>\<open>undefined\<close> only. A
  string is compared with a string as it is, with a number or a boolean as a number, with
  an array or an object through the string the value converts to.
\<close>

fun loosely_equal :: "env \<Rightarrow> hash \<Rightarrow> jsval \<Rightarrow> error + bool" where
  "loosely_equal E None v = Inr (v = None \<or> v = Some JNull)"
| "loosely_equal E (Some s) None = Inr False"
| "loosely_equal E (Some s) (Some JNull) = Inr False"
| "loosely_equal E (Some s) (Some (JString t)) = Inr (s = t)"
| "loosely_equal E (Some s) (Some (JNumber n)) = Inr (ToNumber E s = n)"
| "loosely_equal E (Some s) (Some (JBool b)) = Inr (ToNumber E s = (if b then ''1'' else ''0''))"
| "loosely_equal E (Some s) (Some v) =
     (case ToString v of Inl e \<Rightarrow> Inl e | Inr t \<Rightarrow> Inr (s = t))"

text \<open>
  The variable \<^verbatim>\<open>file\<close> of the loop, and the values of \<^verbatim>\<open>hash2file\<close>, are
  references: to the object at a position of the array \<^verbatim>\<open>files\<close> (\<open>Candidate\<close>),
  or to an object made by \<^verbatim>\<open>new PathContent(undefined)\<close> in this pass (\<open>Own\<close>, with
  its content; its path is \<^verbatim>\<open>undefined\<close>). Assigning \<^verbatim>\<open>file.content\<close> through a
  \<open>Candidate\<close> changes the array, which later passes read.
\<close>

datatype fileref = Candidate nat | Own jsval

text \<open>
  The three results are plain objects. \<^verbatim>\<open>obj[key] = value\<close> stores a property of the
  object, except for the key \<^verbatim>\<open>__proto__\<close>: that assignment stores no property; it
  makes \<^verbatim>\<open>value\<close> the prototype of the object when \<^verbatim>\<open>value\<close> is an object (as in
  \<^verbatim>\<open>foundSources\<close> and \<^verbatim>\<open>missingSources\<close>) and does nothing when it is a string (as
  in \<^verbatim>\<open>invalidSources\<close>). A result is kept as its own properties and, where it can
  change, its prototype (\<open>None\<close> for \<^verbatim>\<open>Object.prototype\<close>). An object stored in
  \<^verbatim>\<open>foundSources\<close> is kept by its path and content: its content is truthy, and content
  is assigned only to an object that has none.
\<close>

record rearrange_state =
  foundSources :: "string \<rightharpoonup> jsval PathContent"
  foundSources_proto :: "jsval PathContent option"
  missingSources :: "string \<rightharpoonup> (jsval \<times> jsval)"
  missingSources_proto :: "(jsval \<times> jsval) option"
  invalidSources :: "string \<rightharpoonup> string"
  hash2file :: "hash \<rightharpoonup> fileref"
  files :: "string PathContent list"
  requests :: "string list"

definition assign :: "(string \<rightharpoonup> 'a) \<Rightarrow> string \<Rightarrow> 'a \<Rightarrow> (string \<rightharpoonup> 'a)" where
  "assign obj key v = (if key = ''__proto__'' then obj else obj(key \<mapsto> v))"

definition assign_proto :: "'a option \<Rightarrow> string \<Rightarrow> 'a \<Rightarrow> 'a option" where
  "assign_proto proto key v = (if key = ''__proto__'' then Some v else proto)"

fun file_content :: "string PathContent list \<Rightarrow> fileref \<Rightarrow> jsval" where
  "file_content fs (Candidate i) = Some (JString (content (fs ! i)))"
| "file_content fs (Own c) = c"

fun file_path :: "string PathContent list \<Rightarrow> fileref \<Rightarrow> string option" where
  "file_path fs (Candidate i) = path (fs ! i)"
| "file_path fs (Own c) = None"

definition storeByHash :: "env \<Rightarrow> string PathContent list \<Rightarrow> (hash \<rightharpoonup> fileref)" where
  "storeByHash E fs =
     foldl (\<lambda>byHash i. byHash(Web3_keccak256 E (content (fs ! i)) \<mapsto> Candidate i))
       Map.empty [0..<length fs]"

text \<open>
  \<^verbatim>\<open>hash2file.get(hash)\<close> and \<^verbatim>\<open>hash2file.set(hash, file)\<close> for any value
  \<^verbatim>\<open>hash\<close>. A \<^verbatim>\<open>Map\<close> finds a key that is the same value. The keys of the index are
  digests, so \<^verbatim>\<open>get\<close> finds nothing for a value that is neither a string nor
  \<^verbatim>\<open>null\<close>. \<^verbatim>\<open>set\<close> is only reached after \<^verbatim>\<open>performFetch\<close> has found the digest
  of the fetched text \<^verbatim>\<open>===\<close> \<^verbatim>\<open>hash\<close> (lemma \<open>processFetching_Inr\<close>), with a string
  or \<^verbatim>\<open>null\<close>.
\<close>

fun Map_get :: "(hash \<rightharpoonup> 'a) \<Rightarrow> jsval \<Rightarrow> 'a option" where
  "Map_get m (Some (JString s)) = m (Some s)"
| "Map_get m (Some JNull) = m None"
| "Map_get m v = None"

fun Map_set :: "(hash \<rightharpoonup> 'a) \<Rightarrow> jsval \<Rightarrow> 'a \<Rightarrow> (hash \<rightharpoonup> 'a)" where
  "Map_set m (Some (JString s)) x = m(Some s \<mapsto> x)"
| "Map_set m (Some JNull) x = m(None \<mapsto> x)"
| "Map_set m v x = m"

text \<open>\<^verbatim>\<open>hash2file.set(hash, file); file.content = fetched;\<close>\<close>

fun set_content :: "fileref \<Rightarrow> jsval \<Rightarrow> string \<Rightarrow> rearrange_state \<Rightarrow> fileref \<times> rearrange_state" where
  "set_content (Candidate i) hash fetched st =
     (Candidate i,
      st\<lparr>hash2file := Map_set (hash2file st) hash (Candidate i),
         files := (files st)[i := (files st ! i)\<lparr>content := fetched\<rparr>]\<rparr>)"
| "set_content (Own c) hash fetched st =
     (Own (Some (JString fetched)),
      st\<lparr>hash2file := Map_set (hash2file st) hash (Own (Some (JString fetched)))\<rparr>)"

definition INVALID_MSG :: string where
  "INVALID_MSG = ''The calculated and the provided hash values don't match.''"

text \<open>The end of the loop body: \<^verbatim>\<open>if (file.content) { ... } else { ... }\<close>.\<close>

definition classify :: "string \<Rightarrow> jsval \<Rightarrow> jsval \<Rightarrow> fileref \<Rightarrow> rearrange_state \<Rightarrow> rearrange_state" where
  "classify fileName hash urls file st =
     (if truthy (file_content (files st) file)
      then st\<lparr>foundSources := assign (foundSources st) fileName
                 \<lparr>path = file_path (files st) file, content = file_content (files st) file\<rparr>,
              foundSources_proto := assign_proto (foundSources_proto st) fileName
                 \<lparr>path = file_path (files st) file, content = file_content (files st) file\<rparr>\<rparr>
      else st\<lparr>missingSources := assign (missingSources st) fileName (hash, urls),
              missingSources_proto := assign_proto (missingSources_proto st) fileName (hash, urls)\<rparr>)"

text \<open>The loop body from \<^verbatim>\<open>if (!file.content && sourceInfo.urls)\<close> on.\<close>

definition resolveFile ::
  "env \<Rightarrow> string \<Rightarrow> jsval \<Rightarrow> jsval \<Rightarrow> fileref \<Rightarrow> rearrange_state \<Rightarrow> error + rearrange_state" where
  "resolveFile E fileName hash urls file st =
     (case (if \<not> truthy (file_content (files st) file) \<and> truthy urls
            then processFetching E fileName urls hash (requests st)
            else Inr (None, requests st)) of
        Inl e \<Rightarrow> Inl e
      | Inr (fetched, requested) \<Rightarrow>
          (let st1 = st\<lparr>requests := requested\<rparr>;
               (file', st2) = (case fetched of
                                 None \<Rightarrow> (file, st1)
                               | Some text \<Rightarrow>
                                   if text \<noteq> []
                                   then set_content file hash text st1
                                   else (file, st1))
           in Inr (classify fileName hash urls file' st2)))"

text \<open>
  The loop body of \<^verbatim>\<open>rearrangeSources\<close> for one declared source. The three properties
  of \<^verbatim>\<open>sourceInfo\<close> are read first: the reads change nothing, and when the first does not
  throw no other does.
\<close>

definition resolveSource ::
  "env \<Rightarrow> string \<Rightarrow> json \<Rightarrow> rearrange_state \<Rightarrow> error + rearrange_state" where
  "resolveSource E fileName sourceInfo st =
     (case get_prop (Some sourceInfo) ''content'' of
        Inl e \<Rightarrow> Inl e
      | Inr inline \<Rightarrow>
     (case get_prop (Some sourceInfo) ''keccak256'' of
        Inl e \<Rightarrow> Inl e
      | Inr hash \<Rightarrow>
     (case get_prop (Some sourceInfo) ''urls'' of
        Inl e \<Rightarrow> Inl e
      | Inr urls \<Rightarrow>
          if truthy inline
          then (case keccak256_of E inline of
                  Inl e \<Rightarrow> Inl e
                | Inr calculated \<Rightarrow>
                    (case loosely_equal E calculated hash of
                       Inl e \<Rightarrow> Inl e
                     | Inr equal \<Rightarrow>
                         if equal then resolveFile E fileName hash urls (Own inline) st
                         else Inr (st\<lparr>invalidSources :=
                                       assign (invalidSources st) fileName INVALID_MSG\<rparr>)))
          else resolveFile E fileName hash urls
                 (case Map_get (hash2file st) hash of Some f \<Rightarrow> f | None \<Rightarrow> Own inline) st)))"

fun rearrange_loop ::
  "env \<Rightarrow> (string \<times> json) list \<Rightarrow> rearrange_state \<Rightarrow> error + rearrange_state" where
  "rearrange_loop E [] st = Inr st"
| "rearrange_loop E ((fileName, sourceInfo) # rest) st =
     (case resolveSource E fileName sourceInfo st of
        Inl e \<Rightarrow> Inl e
      | Inr st' \<Rightarrow> rearrange_loop E rest st')"

definition initial_state :: "env \<Rightarrow> string PathContent list \<Rightarrow> string list \<Rightarrow> rearrange_state" where
  "initial_state E fs requested =
     \<lparr>foundSources = Map.empty, foundSources_proto = None,
      missingSources = Map.empty, missingSources_proto = None,
      invalidSources = Map.empty,
      hash2file = storeByHash E fs, files = fs, requests = requested\<rparr>"

text \<open>
  The entries \<^verbatim>\<open>for (const fileName in metadata.sources)\<close> visits, in order, each
  with \<^verbatim>\<open>metadata.sources[fileName]\<close>.
\<close>

definition source_entries :: "json \<Rightarrow> error + (string \<times> json) list" where
  "source_entries metadata =
     (case get_prop (Some metadata) ''sources'' of
        Inl e \<Rightarrow> Inl e
      | Inr sources \<Rightarrow> Inr (for_in sources))"

text \<open>
  \<^verbatim>\<open>rearrangeSources(metadata, files)\<close>. Beside the three results the state returned
  carries the array \<^verbatim>\<open>files\<close> as the pass leaves it and the URLs requested.
\<close>

definition rearrangeSources ::
  "env \<Rightarrow> json \<Rightarrow> string PathContent list \<Rightarrow> string list \<Rightarrow> error + rearrange_state" where
  "rearrangeSources E metadata fs requested =
     (case source_entries metadata of
        Inl e \<Rightarrow> Inl e
      | Inr entries \<Rightarrow> rearrange_loop E entries (initial_state E fs requested))"

section \<open>Checking a batch\<close>

text \<open>
  Modelled from the spec: the class \<^verbatim>\<open>CheckedContract\<close> (\<^verbatim>\<open>./CheckedContract\<close>) is
  not among the sources. The spec has it own one metadata document and the three
  classification maps; the tests read them as \<^verbatim>\<open>solidity\<close>, \<^verbatim>\<open>missing\<close> and
  \<^verbatim>\<open>invalid\<close>. The derived name and compiled path are left out.
\<close>

record CheckedContract =
  metadata :: json
  solidity :: "string \<rightharpoonup> jsval PathContent"
  missing :: "string \<rightharpoonup> (jsval \<times> jsval)"
  invalid :: "string \<rightharpoonup> string"

fun checkFiles_loop ::
  "env \<Rightarrow> json list \<Rightarrow> string PathContent list \<Rightarrow> string list \<Rightarrow> CheckedContract list
     \<Rightarrow> error + (CheckedContract list \<times> string list)" where
  "checkFiles_loop E [] parsedFiles requested checkedContracts = Inr (checkedContracts, requested)"
| "checkFiles_loop E (m # ms) parsedFiles requested checkedContracts =
     (case rearrangeSources E m parsedFiles requested of
        Inl e \<Rightarrow> Inl e
      | Inr st \<Rightarrow>
          checkFiles_loop E ms (files st) (requests st)
            (checkedContracts @
               [\<lparr>metadata = m, solidity = foundSources st, missing = missingSources st,
                 invalid = invalidSources st\<rparr>]))"

definition parse_files :: "env \<Rightarrow> PathBuffer list \<Rightarrow> string PathContent list" where
  "parse_files E inputFiles =
     map (\<lambda>pathBuffer. \<lparr>path = pb_path pathBuffer,
                         content = Buffer_toString E (buffer pathBuffer)\<rparr>) inputFiles"

text \<open>
  \<^verbatim>\<open>checkFiles(files)\<close>: \<open>None\<close> when the expansion of archives does not end,
  otherwise the error thrown or the checked contracts, with the URLs requested.
\<close>

definition checkFiles ::
  "env \<Rightarrow> PathBuffer list \<Rightarrow> (error + (CheckedContract list \<times> string list)) option" where
  "checkFiles E fs =
     (case findInputFiles E fs of
        None \<Rightarrow> None
      | Some (Inl e) \<Rightarrow> Some (Inl e)
      | Some (Inr inputFiles) \<Rightarrow>
          Some (case findMetadataFiles E (parse_files E inputFiles) of
                  Inl e \<Rightarrow> Inl e
                | Inr metadataFiles \<Rightarrow>
                    checkFiles_loop E metadataFiles (parse_files E inputFiles) [] []))"

section \<open>What expanding a file gives\<close>

text \<open>
  The files a file of the batch stands for when archives are expanded at every depth:
  the file itself when it is no archive, otherwise what the files extracted from it stand
  for, each under the path of the archive. This relation is not read off the code; the
  result of \<^verbatim>\<open>findInputFiles\<close> is compared with it.
\<close>

inductive expands_to :: "env \<Rightarrow> PathBuffer \<Rightarrow> PathBuffer \<Rightarrow> bool" for E where
  plain_file: "AdmZip E (buffer f) = NotZip \<Longrightarrow> expands_to E f f"
| archive_entry:
    "AdmZip E (buffer f) = Zip (Some node) \<Longrightarrow> c \<in> set (traverse_files node)
     \<Longrightarrow> expands_to E \<lparr>pb_path = pb_path f, buffer = c\<rparr> g \<Longrightarrow> expands_to E f g"

text \<open>
  A set of buffers in which archives nest to a finite depth and can be extracted: every
  archive of the set is extracted into a directory, to buffers of the set of a lower
  rank.
\<close>

definition extractable :: "env \<Rightarrow> (Buffer \<Rightarrow> nat) \<Rightarrow> Buffer set \<Rightarrow> bool" where
  "extractable E rank S =
     (\<forall>b\<in>S. case AdmZip E b of
               NotZip \<Rightarrow> True
             | Corrupt \<Rightarrow> False
             | Zip None \<Rightarrow> False
             | Zip (Some node) \<Rightarrow> \<forall>c\<in>set (traverse_files node). c \<in> S \<and> rank c < rank b)"

section \<open>Concrete inputs\<close>

text \<open>
  One environment for the examples. Its tables agree with the libraries on the strings
  the examples give them: a JSON text is mapped to the value \<^verbatim>\<open>JSON.parse\<close> returns
  for it, a string to its Keccak-256 digest as \<^verbatim>\<open>Web3.utils.keccak256\<close> returns it
  (\<^verbatim>\<open>null\<close> for the empty string). A string no example hashes gets a placeholder.
  No example hashes a value that is no string or compares a digest with a number: there
  the environment throws and answers \<^verbatim>\<open>NaN\<close>. \<open>fetch\<close> rejects every URL it has no
  response for.
  The two archives are named, not encoded: \<open>outer_zip\<close> stands for an archive that holds
  \<open>inner_zip\<close> and a Solidity file, \<open>inner_zip\<close> for one that holds a metadata file.
\<close>

definition storage_sol :: string where
  "storage_sol = ''contract Storage { uint256 number; }''"

definition storage_hash :: string where
  "storage_hash = ''0x067068acc146644554e68818ce37d67328e2eaabd6a40beea880e47b4e4c0617''"

definition tampered_sol :: string where
  "tampered_sol = ''contract Storage { uint256 other; }''"

definition tampered_hash :: string where
  "tampered_hash = ''0xa2498f62a59f2cb6dd8885c2ad1289ae77bf74430e21ea6a35595e98b0a297f6''"

definition safemath_sol :: string where
  "safemath_sol = ''library SafeMath { }''"

definition safemath_hash :: string where
  "safemath_hash = ''0xbc5626deea11021616cfe3187c733756536bf71ccde26d48c6b8385f8c1493eb''"

definition bare_json :: string where
  \<open>bare_json = ''{"language":"Solidity","compiler":{"version":"0.6.6"}}''\<close>

definition bare_hash :: string where
  "bare_hash = ''0xe962630cf535f266f087ac7361503bb791671eae3dabe07d34ef09476fdcfbec''"

definition bare_doc :: json where
  "bare_doc =
     JObject [(''language'', JString ''Solidity''),
              (''compiler'', JObject [(''version'', JString ''0.6.6'')])]"

definition b_json :: string where
  \<open>b_json = ''{"language":"Solidity","compiler":{"version":"0.6.6"},"settings":{"compilationTarget":{"b.sol":"B"}},"sources":{}}''\<close>

definition b_hash :: string where
  "b_hash = ''0xe5d26b393e3cf211582116251a4aec77b7ae9de469e7cb8bce87caad2afeb64d''"

definition b_doc :: json where
  "b_doc =
     JObject [(''language'', JString ''Solidity''),
              (''compiler'', JObject [(''version'', JString ''0.6.6'')]),
              (''settings'', JObject [(''compilationTarget'', JObject [(''b.sol'', JString ''B'')])]),
              (''sources'', JObject [])]"

definition a_json :: string where
  \<open>a_json = ''{"language":"Solidity","compiler":{"version":"0.6.6"},"settings":{"compilationTarget":{"a.sol":"A"}},"sources":{"a.sol":{"keccak256":"0xe5d26b393e3cf211582116251a4aec77b7ae9de469e7cb8bce87caad2afeb64d"}}}''\<close>

definition a_hash :: string where
  "a_hash = ''0x6f949bcc4f324468e7282f06a8e3a17971739ab94ce8e57183a814a7e9aff852''"

definition a_doc :: json where
  "a_doc =
     JObject [(''language'', JString ''Solidity''),
              (''compiler'', JObject [(''version'', JString ''0.6.6'')]),
              (''settings'', JObject [(''compilationTarget'', JObject [(''a.sol'', JString ''A'')])]),
              (''sources'', JObject [(''a.sol'', JObject [(''keccak256'', JString b_hash)])])]"

text \<open>
  Metadata documents whose first source is \<open>storage_sol\<close>. The second source is an empty
  file, declared with the Keccak-256 digest of the empty string (\<open>empty_source_json\<close>);
  a file under a GitHub path (\<open>github_json\<close>); a file under \<^verbatim>\<open>@openzeppelin\<close> with an
  IPFS URL (\<open>ipfs_json\<close>).
\<close>

definition empty_hash :: string where
  "empty_hash = ''0xc5d2460186f7233c927e7db2dcc703c0e500b653ca82273b7bfad8045d85a470''"

definition empty_source_json :: string where
  \<open>empty_source_json = ''{"language":"Solidity","compiler":{"version":"0.6.6"},"settings":{"compilationTarget":{"browser/1_Storage.sol":"Storage"}},"sources":{"browser/1_Storage.sol":{"keccak256":"0x067068acc146644554e68818ce37d67328e2eaabd6a40beea880e47b4e4c0617"},"browser/Empty.sol":{"keccak256":"0xc5d2460186f7233c927e7db2dcc703c0e500b653ca82273b7bfad8045d85a470"}}}''\<close>

definition empty_source_hash :: string where
  "empty_source_hash = ''0xcda5601279bbe3a2e8ad2b66603e38de7c80b9688fa60118948bd58adf99f0b6''"

definition github_json :: string where
  \<open>github_json = ''{"language":"Solidity","compiler":{"version":"0.6.6"},"settings":{"compilationTarget":{"browser/1_Storage.sol":"Storage"}},"sources":{"browser/1_Storage.sol":{"keccak256":"0x067068acc146644554e68818ce37d67328e2eaabd6a40beea880e47b4e4c0617"},"https://github.com/example/lib/Other.sol":{"keccak256":"0xbc5626deea11021616cfe3187c733756536bf71ccde26d48c6b8385f8c1493eb","urls":["bzz-raw://e3b0c4"]}}}''\<close>

definition github_hash :: string where
  "github_hash = ''0x158772b5821f40e77c9eb568c50aa8606f778406260c7ab4ef84de9ca86a037d''"

definition ipfs_json :: string where
  \<open>ipfs_json = ''{"language":"Solidity","compiler":{"version":"0.6.6"},"settings":{"compilationTarget":{"browser/1_Storage.sol":"Storage"}},"sources":{"browser/1_Storage.sol":{"keccak256":"0x067068acc146644554e68818ce37d67328e2eaabd6a40beea880e47b4e4c0617"},"@openzeppelin/contracts/math/SafeMath.sol":{"keccak256":"0xbc5626deea11021616cfe3187c733756536bf71ccde26d48c6b8385f8c1493eb","urls":["bzz-raw://e3b0c4","dweb:/ipfs/QmUnreachable"]}}}''\<close>

definition ipfs_hash :: string where
  "ipfs_hash = ''0xbb93c58b03d10a81bab8ed846df4279c444657d2daaa586064c670473590ba77''"

definition two_sources_doc :: "string \<Rightarrow> json \<Rightarrow> json" where
  "two_sources_doc fileName sourceInfo =
     JObject [(''language'', JString ''Solidity''),
              (''compiler'', JObject [(''version'', JString ''0.6.6'')]),
              (''settings'', JObject [(''compilationTarget'',
                                       JObject [(''browser/1_Storage.sol'', JString ''Storage'')])]),
              (''sources'', JObject
                 [(''browser/1_Storage.sol'', JObject [(''keccak256'', JString storage_hash)]),
                  (fileName, sourceInfo)])]"

definition empty_source_doc :: json where
  "empty_source_doc =
     two_sources_doc ''browser/Empty.sol'' (JObject [(''keccak256'', JString empty_hash)])"

definition github_doc :: json where
  "github_doc =
     two_sources_doc ''https://github.com/example/lib/Other.sol''
       (JObject [(''keccak256'', JString safemath_hash),
                 (''urls'', JArray [JString ''bzz-raw://e3b0c4''])])"

definition ipfs_doc :: json where
  "ipfs_doc =
     two_sources_doc ''@openzeppelin/contracts/math/SafeMath.sol''
       (JObject [(''keccak256'', JString safemath_hash),
                 (''urls'', JArray [JString ''bzz-raw://e3b0c4'',
                                    JString ''dweb:/ipfs/QmUnreachable''])])"

definition parse_ex :: "string \<Rightarrow> json option" where
  "parse_ex s =
     (if s = bare_json then Some bare_doc
      else if s = a_json then Some a_doc
      else if s = b_json then Some b_doc
      else if s = empty_source_json then Some empty_source_doc
      else if s = github_json then Some github_doc
      else if s = ipfs_json then Some ipfs_doc
      else None)"

definition keccak_ex :: "string \<Rightarrow> hash" where
  "keccak_ex s =
     (if s = [] then None
      else if s = storage_sol then Some storage_hash
      else if s = tampered_sol then Some tampered_hash
      else if s = safemath_sol then Some safemath_hash
      else if s = bare_json then Some bare_hash
      else if s = a_json then Some a_hash
      else if s = b_json then Some b_hash
      else if s = empty_source_json then Some empty_source_hash
      else if s = github_json then Some github_hash
      else if s = ipfs_json then Some ipfs_hash
      else Some ''0x'')"

definition gateway_good :: string where
  "gateway_good = ''https://ipfs.infura.io:5001/api/v0/cat?arg=QmSafeMath''"

definition gateway_gone :: string where
  "gateway_gone = ''https://ipfs.infura.io:5001/api/v0/cat?arg=QmGone''"

definition fetch_ex :: "string list \<Rightarrow> string \<Rightarrow> fetch_result" where
  "fetch_ex requested url =
     (if url = gateway_good then Response 200 safemath_sol
      else if url = gateway_gone then Response 404 []
      else if url = ''https://raw.githubusercontent.com/example/lib/SafeMath.sol''
      then Response 404 ''404: Not Found''
      else Rejected)"

definition outer_zip :: Buffer where
  "outer_zip = ''PK(outer)''"

definition inner_zip :: Buffer where
  "inner_zip = ''PK(inner)''"

definition zip_ex :: "Buffer \<Rightarrow> zip" where
  "zip_ex b =
     (if b = outer_zip then Zip (Some (Directory [File inner_zip, File storage_sol]))
      else if b = inner_zip then Zip (Some (Directory [File b_json]))
      else NotZip)"

definition E_ex :: env where
  "E_ex = \<lparr>JSON_parse = parse_ex, Web3_keccak256 = keccak_ex,
           Web3_keccak256_untyped = (\<lambda>v. Inl Web3Error), ToNumber = (\<lambda>s. ''NaN''),
           fetch = fetch_ex, AdmZip = zip_ex, Buffer_toString = (\<lambda>b. b)\<rparr>"



definition storage_file :: "string PathContent" where
  "storage_file = \<lparr>path = Some ''/tmp/upload/1_Storage.sol'', content = storage_sol\<rparr>"

definition empty_file :: "string PathContent" where
  "empty_file = \<lparr>path = Some ''/tmp/upload/Empty.sol'', content = []\<rparr>"

text \<open>How deep archives nest in a buffer of the examples.\<close>

definition rank_ex :: "Buffer \<Rightarrow> nat" where
  "rank_ex b = (if b = outer_zip then 2 else if b = inner_zip then 1 else 0)"

section \<open>Properties of the pieces\<close>

text \<open>Unfolding the model on the concrete inputs.\<close>

lemmas ex_defs = E_ex_def parse_ex_def keccak_ex_def fetch_ex_def zip_ex_def
  storage_sol_def storage_hash_def tampered_sol_def tampered_hash_def safemath_sol_def
  safemath_hash_def bare_json_def bare_hash_def bare_doc_def a_json_def a_hash_def a_doc_def
  b_json_def b_hash_def b_doc_def gateway_good_def gateway_gone_def outer_zip_def inner_zip_def
  empty_hash_def empty_source_json_def empty_source_hash_def empty_source_doc_def
  github_json_def github_hash_def github_doc_def ipfs_json_def ipfs_hash_def ipfs_doc_def
  two_sources_doc_def

lemmas run_defs = rearrangeSources_def source_entries_def for_in_def for_of_def
  initial_state_def storeByHash_def resolveSource_def resolveFile_def classify_def
  assign_def assign_proto_def keccak256_of_def strictly_equal_def
  processFetching_def performFetch_def trim_def whitespace_def
  GITHUB_REGEX_test_def startsWith_def line_terminator_def IPFS_PREFIX_def INVALID_MSG_def
  ipfs_gateway_def Let_def

lemmas scan_defs = findMetadataFiles_def metadata_of_file_def extractMetadataFromString_def
  isMetadata_def compilationTargetsNumber_def match_here_def NESTED_METADATA_PREFIX_def

lemmas expand_defs = findInputFiles_def findInputFiles_loop.simps isZip_def unzip_def
  traversePathRecursively_def

subsection \<open>The index built by \<^verbatim>\<open>storeByHash\<close>\<close>

text \<open>
  \<^verbatim>\<open>storeByHash\<close> maps a digest to the last position of the array whose content has
  that digest, and to nothing when no content has it.
\<close>

lemma storeByHash_upto:
  "foldl (\<lambda>byHash i. byHash(Web3_keccak256 E (content (fs ! i)) \<mapsto> Candidate i)) Map.empty [0..<n] h = Some r
   \<longleftrightarrow> (\<exists>i<n. r = Candidate i \<and> Web3_keccak256 E (content (fs ! i)) = h \<and>
          (\<forall>j. i < j \<and> j < n \<longrightarrow> Web3_keccak256 E (content (fs ! j)) \<noteq> h))"
proof (induction n arbitrary: r)
  case 0
  show ?case by simp
next
  case (Suc n)
  show ?case
  proof (cases "Web3_keccak256 E (content (fs ! n)) = h")
    case True
    then show ?thesis
      by (auto simp: less_Suc_eq)
  next
    case False
    then show ?thesis
      using Suc.IH [of r] by (auto simp: less_Suc_eq)
  qed
qed

lemma storeByHash_Some:
  "storeByHash E fs h = Some r \<longleftrightarrow>
     (\<exists>i<length fs. r = Candidate i \<and> Web3_keccak256 E (content (fs ! i)) = h \<and>
        (\<forall>j. i < j \<and> j < length fs \<longrightarrow> Web3_keccak256 E (content (fs ! j)) \<noteq> h))"
  unfolding storeByHash_def by (rule storeByHash_upto)

lemma storeByHash_upto_None:
  "foldl (\<lambda>byHash i. byHash(Web3_keccak256 E (content (fs ! i)) \<mapsto> Candidate i)) Map.empty [0..<n] h = None
   \<longleftrightarrow> (\<forall>i<n. Web3_keccak256 E (content (fs ! i)) \<noteq> h)"
  by (induction n) (auto simp: less_Suc_eq)

lemma storeByHash_None:
  "storeByHash E fs h = None \<longleftrightarrow> (\<forall>i<length fs. Web3_keccak256 E (content (fs ! i)) \<noteq> h)"
  unfolding storeByHash_def by (rule storeByHash_upto_None)

lemma storeByHash_candidate:
  assumes "f \<in> set fs"
  shows "\<exists>i<length fs. storeByHash E fs (Web3_keccak256 E (content f)) = Some (Candidate i)
           \<and> Web3_keccak256 E (content (fs ! i)) = Web3_keccak256 E (content f)"
proof -
  from assms obtain k where "k < length fs" "fs ! k = f" by (auto simp: in_set_conv_nth)
  then have "storeByHash E fs (Web3_keccak256 E (content f)) \<noteq> None"
    by (auto simp: storeByHash_None)
  then obtain r where "storeByHash E fs (Web3_keccak256 E (content f)) = Some r" by auto
  then show ?thesis by (auto simp: storeByHash_Some)
qed

subsection \<open>What one iteration of \<^verbatim>\<open>rearrangeSources\<close> changes\<close>

text \<open>
  An assignment to a plain object stores a property under every key but
  \<^verbatim>\<open>__proto__\<close>, and changes no other property.
\<close>

lemma assign_other: "k \<noteq> key \<Longrightarrow> assign obj key v k = obj k"
  by (simp add: assign_def)

lemma assign_same: "key \<noteq> ''__proto__'' \<Longrightarrow> assign obj key v key = Some v"
  by (simp add: assign_def)

lemma assign_stored: "key \<noteq> ''__proto__'' \<Longrightarrow> assign obj key v = obj(key \<mapsto> v)"
  by (simp add: assign_def)

lemma assign_proto_name: "assign obj ''__proto__'' v = obj"
  by (simp add: assign_def)

lemma assign_proto_other: "key \<noteq> ''__proto__'' \<Longrightarrow> assign_proto p key v = p"
  by (simp add: assign_proto_def)

lemma get_prop_defined:
  assumes "get_prop (Some sourceInfo) key = Inr v"
  shows "\<exists>w. get_prop (Some sourceInfo) key' = Inr w"
  using assms by (cases sourceInfo) auto


lemma set_content_frame:
  assumes "set_content f h t st = (f', st')"
  shows "foundSources st' = foundSources st" "missingSources st' = missingSources st"
    "invalidSources st' = invalidSources st" "requests st' = requests st"
    "foundSources_proto st' = foundSources_proto st"
    "missingSources_proto st' = missingSources_proto st"
  using assms by (cases f; auto)+

lemma classify_frame:
  assumes "k \<noteq> fileName"
  shows "foundSources (classify fileName h u f st) k = foundSources st k"
    "missingSources (classify fileName h u f st) k = missingSources st k"
  using assms by (auto simp: classify_def assign_other)

lemma classify_same:
  "invalidSources (classify fileName h u f st) = invalidSources st"
  "hash2file (classify fileName h u f st) = hash2file st"
  "files (classify fileName h u f st) = files st"
  "requests (classify fileName h u f st) = requests st"
  by (auto simp: classify_def)

lemma classify_truthy:
  assumes "truthy (file_content (files st) f)" "fileName \<noteq> ''__proto__''"
  shows "classify fileName h u f st =
           st\<lparr>foundSources := (foundSources st)
                (fileName \<mapsto> \<lparr>path = file_path (files st) f,
                               content = file_content (files st) f\<rparr>)\<rparr>"
  using assms by (simp add: classify_def assign_stored assign_proto_other)

lemma classify_falsy:
  assumes "\<not> truthy (file_content (files st) f)" "fileName \<noteq> ''__proto__''"
  shows "classify fileName h u f st =
           st\<lparr>missingSources := (missingSources st)(fileName \<mapsto> (h, u))\<rparr>"
  using assms by (simp add: classify_def assign_stored assign_proto_other)

lemma resolveFile_truthy:
  assumes "truthy (file_content (files st) f)"
  shows "resolveFile E fileName h u f st = Inr (classify fileName h u f st)"
  using assms by (cases st) (simp add: resolveFile_def)

text \<open>How an iteration that returns has gone through \<^verbatim>\<open>resolveFile\<close>.\<close>

lemma resolveFile_shape:
  assumes "resolveFile E fileName h u f st = Inr st'"
  obtains (plain) req where "st' = classify fileName h u f (st\<lparr>requests := req\<rparr>)"
  | (fetched) req t f' st2 where
      "truthy u" "\<not> truthy (file_content (files st) f)"
      "processFetching E fileName u h (requests st) = Inr (Some t, req)" "t \<noteq> []"
      "set_content f h t (st\<lparr>requests := req\<rparr>) = (f', st2)"
      "st' = classify fileName h u f' st2"
proof (cases "\<not> truthy (file_content (files st) f) \<and> truthy u")
  case False
  with assms have "st' = classify fileName h u f (st\<lparr>requests := requests st\<rparr>)"
    by (auto simp: resolveFile_def)
  then show ?thesis by (rule plain)
next
  case True
  with assms obtain x req where
    p: "processFetching E fileName u h (requests st) = Inr (x, req)"
    by (cases "processFetching E fileName u h (requests st)") (auto simp: resolveFile_def)
  show ?thesis
  proof (cases "\<exists>t. x = Some t \<and> t \<noteq> []")
    case yes: True
    then obtain t where t: "x = Some t" "t \<noteq> []" by blast
    obtain f' st2 where s: "set_content f h t (st\<lparr>requests := req\<rparr>) = (f', st2)"
      by (cases "set_content f h t (st\<lparr>requests := req\<rparr>)")
    from assms True p t s have "st' = classify fileName h u f' st2"
      by (simp add: resolveFile_def)
    with True p t s show ?thesis by (intro fetched) simp_all
  next
    case no: False
    with assms True p have "st' = classify fileName h u f (st\<lparr>requests := req\<rparr>)"
      by (cases x) (auto simp: resolveFile_def)
    then show ?thesis by (rule plain)
  qed
qed

text \<open>How an iteration that returns has gone through the loop body.\<close>

lemma resolveSource_shape:
  assumes "resolveSource E fileName sourceInfo st = Inr st'"
  obtains (invalid) c h u d where
      "get_prop (Some sourceInfo) ''content'' = Inr c"
      "get_prop (Some sourceInfo) ''keccak256'' = Inr h"
      "get_prop (Some sourceInfo) ''urls'' = Inr u"
      "truthy c" "keccak256_of E c = Inr d" "loosely_equal E d h = Inr False"
      "st' = st\<lparr>invalidSources := assign (invalidSources st) fileName INVALID_MSG\<rparr>"
  | (inline) c h u d where
      "get_prop (Some sourceInfo) ''content'' = Inr c"
      "get_prop (Some sourceInfo) ''keccak256'' = Inr h"
      "get_prop (Some sourceInfo) ''urls'' = Inr u"
      "truthy c" "keccak256_of E c = Inr d" "loosely_equal E d h = Inr True"
      "resolveFile E fileName h u (Own c) st = Inr st'"
  | (lookup) c h u where
      "get_prop (Some sourceInfo) ''content'' = Inr c"
      "get_prop (Some sourceInfo) ''keccak256'' = Inr h"
      "get_prop (Some sourceInfo) ''urls'' = Inr u"
      "\<not> truthy c"
      "resolveFile E fileName h u
         (case Map_get (hash2file st) h of Some f \<Rightarrow> f | None \<Rightarrow> Own c) st = Inr st'"
proof -
  from assms obtain c h u where g:
    "get_prop (Some sourceInfo) ''content'' = Inr c"
    "get_prop (Some sourceInfo) ''keccak256'' = Inr h"
    "get_prop (Some sourceInfo) ''urls'' = Inr u"
    by (auto simp: resolveSource_def split: sum.splits)
  show ?thesis
  proof (cases "truthy c")
    case False
    with assms g show ?thesis by (intro lookup [of c h u]) (simp_all add: resolveSource_def)
  next
    case True
    with assms g obtain d eq where d: "keccak256_of E c = Inr d" "loosely_equal E d h = Inr eq"
      by (auto simp: resolveSource_def split: sum.splits)
    show ?thesis
    proof (cases eq)
      case True
      with assms g \<open>truthy c\<close> d show ?thesis
        by (intro inline [of c h u d]) (simp_all add: resolveSource_def)
    next
      case False
      with assms g \<open>truthy c\<close> d show ?thesis
        by (intro invalid [of c h u d]) (simp_all add: resolveSource_def)
    qed
  qed
qed

lemma resolveFile_frame:
  assumes "resolveFile E fileName h u f st = Inr st'" "k \<noteq> fileName"
  shows "foundSources st' k = foundSources st k \<and> missingSources st' k = missingSources st k
         \<and> invalidSources st' k = invalidSources st k"
  using assms(1)
proof (cases rule: resolveFile_shape)
  case (plain req)
  then show ?thesis using assms(2) by (simp add: classify_frame classify_same)
next
  case (fetched req t f' st2)
  from set_content_frame [OF fetched(5)] fetched(6) assms(2) show ?thesis
    by (simp add: classify_frame classify_same)
qed

lemma resolveSource_frame:
  assumes "resolveSource E fileName sourceInfo st = Inr st'" "k \<noteq> fileName"
  shows "foundSources st' k = foundSources st k \<and> missingSources st' k = missingSources st k
         \<and> invalidSources st' k = invalidSources st k"
  using assms(1)
proof (cases rule: resolveSource_shape)
  case (invalid c h u d)
  then show ?thesis using assms(2) by (simp add: assign_other)
next
  case (inline c h u d)
  from resolveFile_frame [OF inline(7) assms(2)] show ?thesis .
next
  case (lookup c h u)
  from resolveFile_frame [OF lookup(5) assms(2)] show ?thesis .
qed

lemma rearrange_loop_frame:
  assumes "rearrange_loop E entries st = Inr st'" "k \<notin> fst ` set entries"
  shows "foundSources st' k = foundSources st k \<and> missingSources st' k = missingSources st k
         \<and> invalidSources st' k = invalidSources st k"
  using assms
proof (induction entries arbitrary: st)
  case Nil
  then show ?case by simp
next
  case (Cons e entries)
  obtain fileName j where e: "e = (fileName, j)" by (cases e)
  from Cons.prems(1) e obtain st1 where
    s: "resolveSource E fileName j st = Inr st1" "rearrange_loop E entries st1 = Inr st'"
    by (auto split: sum.splits)
  from Cons.prems(2) e have k: "k \<noteq> fileName" "k \<notin> fst ` set entries" by auto
  from Cons.IH [OF s(2) k(2)] resolveSource_frame [OF s(1) k(1)] show ?case by simp
qed

lemma rearrange_loop_append:
  "rearrange_loop E (xs @ ys) st =
     (case rearrange_loop E xs st of Inl e \<Rightarrow> Inl e | Inr st' \<Rightarrow> rearrange_loop E ys st')"
  by (induction xs arbitrary: st) (auto split: sum.splits)

lemma rearrange_loop_entry:
  assumes "rearrange_loop E entries st = Inr st'"
      and "(fileName, j) \<in> set entries" "distinct (map fst entries)"
  obtains pre post st1 st2 where
    "entries = pre @ (fileName, j) # post"
    "fileName \<notin> fst ` set pre" "fileName \<notin> fst ` set post"
    "rearrange_loop E pre st = Inr st1"
    "resolveSource E fileName j st1 = Inr st2"
    "rearrange_loop E post st2 = Inr st'"
proof -
  from assms(2) obtain pre post where sp: "entries = pre @ (fileName, j) # post"
    by (auto dest: split_list)
  with assms(3) have d: "fileName \<notin> fst ` set pre" "fileName \<notin> fst ` set post" by auto
  from assms(1) sp obtain st1 where 1: "rearrange_loop E pre st = Inr st1"
    and 2: "rearrange_loop E ((fileName, j) # post) st1 = Inr st'"
    by (auto simp: rearrange_loop_append split: sum.splits)
  from 2 obtain st2 where
    "resolveSource E fileName j st1 = Inr st2" "rearrange_loop E post st2 = Inr st'"
    by (auto split: sum.splits)
  with sp d 1 show ?thesis using that by blast
qed

text \<open>
  The results hold no property \<^verbatim>\<open>__proto__\<close>: the loop starts from empty objects and
  no assignment stores one.
\<close>

lemma resolveFile_proto_name:
  assumes "resolveFile E fileName h u f st = Inr st'"
  shows "foundSources st' ''__proto__'' = foundSources st ''__proto__''
         \<and> missingSources st' ''__proto__'' = missingSources st ''__proto__''
         \<and> invalidSources st' ''__proto__'' = invalidSources st ''__proto__''"
proof (cases "fileName = ''__proto__''")
  case False
  then show ?thesis using resolveFile_frame [OF assms, of "''__proto__''"] by simp
next
  case True
  from assms show ?thesis
  proof (cases rule: resolveFile_shape)
    case (plain req)
    then show ?thesis using True by (simp add: classify_def assign_proto_name)
  next
    case (fetched req t f' st2)
    from set_content_frame [OF fetched(5)] fetched(6) True show ?thesis
      by (simp add: classify_def assign_proto_name)
  qed
qed

lemma resolveSource_proto_name:
  assumes "resolveSource E fileName sourceInfo st = Inr st'"
  shows "foundSources st' ''__proto__'' = foundSources st ''__proto__''
         \<and> missingSources st' ''__proto__'' = missingSources st ''__proto__''
         \<and> invalidSources st' ''__proto__'' = invalidSources st ''__proto__''"
  using assms
proof (cases rule: resolveSource_shape)
  case (invalid c h u d)
  then show ?thesis by (simp add: assign_def)
next
  case (inline c h u d)
  from resolveFile_proto_name [OF inline(7)] show ?thesis .
next
  case (lookup c h u)
  from resolveFile_proto_name [OF lookup(5)] show ?thesis .
qed

lemma rearrange_loop_proto_name:
  assumes "rearrange_loop E entries st = Inr st'"
  shows "foundSources st' ''__proto__'' = foundSources st ''__proto__''
         \<and> missingSources st' ''__proto__'' = missingSources st ''__proto__''
         \<and> invalidSources st' ''__proto__'' = invalidSources st ''__proto__''"
  using assms
proof (induction entries arbitrary: st)
  case Nil
  then show ?case by simp
next
  case (Cons e entries)
  obtain fileName j where e: "e = (fileName, j)" by (cases e)
  from Cons.prems(1) e obtain st1 where
    s: "resolveSource E fileName j st = Inr st1" "rearrange_loop E entries st1 = Inr st'"
    by (auto split: sum.splits)
  from Cons.IH [OF s(2)] resolveSource_proto_name [OF s(1)] show ?case by simp
qed

subsection \<open>The names of the declared sources\<close>

text \<open>
  The indices of an array or of a string that \<^verbatim>\<open>for ... in\<close> visits are distinct
  (the keys of an object are, by what \<^verbatim>\<open>JSON.parse\<close> returns).
\<close>

lemma decimal_not_empty: "decimal n \<noteq> []"
  by (subst decimal.simps) simp

lemma digit_inj:
  assumes "char_of (48 + a :: nat) = (char_of (48 + b :: nat) :: char)" "a < 10" "b < 10"
  shows "a = b"
proof -
  from assms(1) have "(48 + a) mod 256 = (48 + b) mod 256"
    by (simp add: char_of_eq_iff take_bit_eq_mod)
  with assms(2,3) show ?thesis by simp
qed

lemma decimal_inj: "decimal m = decimal n \<Longrightarrow> m = n"
proof (induction m arbitrary: n rule: decimal.induct)
  case (1 m)
  show ?case
  proof (cases "m < 10")
    case small: True
    show ?thesis
    proof (cases "n < 10")
      case True
      with small "1.prems" have "char_of (48 + m) = (char_of (48 + n) :: char)"
        by (simp add: decimal.simps [of m] decimal.simps [of n])
      from this small True show ?thesis by (rule digit_inj)
    next
      case False
      with small "1.prems" have "[char_of (48 + m)] = decimal (n div 10) @ [char_of (48 + n mod 10)]"
        by (simp add: decimal.simps [of m] decimal.simps [of n])
      with decimal_not_empty [of "n div 10"] show ?thesis by (cases "decimal (n div 10)") auto
    qed
  next
    case big: False
    show ?thesis
    proof (cases "n < 10")
      case True
      with big "1.prems" have "decimal (m div 10) @ [char_of (48 + m mod 10)] = [char_of (48 + n)]"
        by (simp add: decimal.simps [of m] decimal.simps [of n])
      with decimal_not_empty [of "m div 10"] show ?thesis by (cases "decimal (m div 10)") auto
    next
      case False
      with big "1.prems" have eq: "decimal (m div 10) = decimal (n div 10)"
        "char_of (48 + m mod 10) = (char_of (48 + n mod 10) :: char)"
        by (simp_all add: decimal.simps [of m] decimal.simps [of n])
      from "1.IH" [OF big eq(1)] have d: "m div 10 = n div 10" .
      from eq(2) have "m mod 10 = n mod 10" by (rule digit_inj) simp_all
      with d show ?thesis by (metis div_mult_mod_eq)
    qed
  qed
qed

lemma distinct_indices: "distinct (map decimal [0..<n])"
  by (simp add: distinct_map inj_on_def decimal_inj)

lemma for_in_distinct:
  "distinct (map fst (for_in (Some (JArray xs))))"
  "distinct (map fst (for_in (Some (JString s))))"
  by (simp_all add: for_in_def distinct_indices)

subsection \<open>The index during a pass\<close>

text \<open>
  \<^verbatim>\<open>get\<close> and \<^verbatim>\<open>set\<close> address the key of the index that is \<^verbatim>\<open>===\<close> the value
  given, and no other.
\<close>

lemma Map_get_strict: "strictly_equal k v \<Longrightarrow> Map_get m v = m k"
  by (cases k) (simp_all add: strictly_equal_def)


lemma Map_set_other: "\<not> strictly_equal k v \<Longrightarrow> Map_set m v x k = m k"
  by (cases "(m, v, x)" rule: Map_set.cases) (auto simp: strictly_equal_def)


text \<open>
  An entry of the index whose object has content keeps its object, content and path:
  content is assigned only to an object that has none.
\<close>

lemma set_content_stable:
  assumes "set_content f v t st = (f', st')"
      and "\<not> truthy (file_content (files st) f)"
      and "\<not> strictly_equal k v"
      and "truthy (file_content (files st) r)"
  shows "hash2file st' k = hash2file st k
         \<and> file_content (files st') r = file_content (files st) r
         \<and> file_path (files st') r = file_path (files st) r"
proof (cases f)
  case (Candidate i)
  have "r \<noteq> Candidate i" using assms(2,4) Candidate by auto
  then show ?thesis using assms Candidate by (cases r) (auto simp: Map_set_other)
next
  case (Own x)
  then show ?thesis using assms by (auto simp: Map_set_other)
qed

lemma resolveFile_stable:
  assumes "resolveFile E fileName v u f st = Inr st'"
      and "hash2file st k = Some r" "truthy (file_content (files st) r)"
      and "strictly_equal k v \<Longrightarrow> truthy (file_content (files st) f)"
  shows "hash2file st' k = Some r
         \<and> file_content (files st') r = file_content (files st) r
         \<and> file_path (files st') r = file_path (files st) r"
  using assms(1)
proof (cases rule: resolveFile_shape)
  case (plain req)
  then show ?thesis using assms(2) by (simp add: classify_same)
next
  case (fetched req t f' st2)
  from fetched(2) assms(4) have ne: "\<not> strictly_equal k v" by auto
  from set_content_stable [OF fetched(5) _ ne, of r] fetched(2) assms(2,3) fetched(6)
  show ?thesis by (simp add: classify_same)
qed

lemma resolveSource_stable:
  assumes "resolveSource E fileName sourceInfo st = Inr st'"
      and "hash2file st k = Some r" "truthy (file_content (files st) r)"
  shows "hash2file st' k = Some r
         \<and> file_content (files st') r = file_content (files st) r
         \<and> file_path (files st') r = file_path (files st) r"
  using assms(1)
proof (cases rule: resolveSource_shape)
  case (invalid c h u d)
  then show ?thesis using assms(2) by simp
next
  case (inline c h u d)
  from resolveFile_stable [OF inline(7) assms(2,3)] inline(4) show ?thesis by simp
next
  case (lookup c h u)
  have "truthy (file_content (files st)
          (case Map_get (hash2file st) h of Some f \<Rightarrow> f | None \<Rightarrow> Own c))"
    if "strictly_equal k h"
    using Map_get_strict [OF that, of "hash2file st"] assms(2,3) by simp
  from resolveFile_stable [OF lookup(5) assms(2,3) this] show ?thesis by simp
qed

lemma rearrange_loop_stable:
  assumes "rearrange_loop E entries st = Inr st'"
      and "hash2file st k = Some r" "truthy (file_content (files st) r)"
  shows "hash2file st' k = Some r
         \<and> file_content (files st') r = file_content (files st) r
         \<and> file_path (files st') r = file_path (files st) r"
  using assms
proof (induction entries arbitrary: st)
  case Nil
  then show ?case by simp
next
  case (Cons e entries)
  obtain fileName j where e: "e = (fileName, j)" by (cases e)
  from Cons.prems(1) e obtain st1 where
    s: "resolveSource E fileName j st = Inr st1" "rearrange_loop E entries st1 = Inr st'"
    by (auto split: sum.splits)
  from resolveSource_stable [OF s(1) Cons.prems(2,3)]
  have 1: "hash2file st1 k = Some r" "file_content (files st1) r = file_content (files st) r"
    "file_path (files st1) r = file_path (files st) r" by auto
  from 1(2) Cons.prems(3) have "truthy (file_content (files st1) r)" by simp
  from Cons.IH [OF s(2) 1(1) this] 1(2,3) show ?case by simp
qed







subsection \<open>Fetching\<close>

text \<open>
  \<^verbatim>\<open>processFetching\<close> throws before any request, or makes no request, or the one
  request \<open>fetch_target\<close> names; \<^verbatim>\<open>performFetch\<close> returns content only when its digest
  is \<^verbatim>\<open>===\<close> the expected one.
\<close>

lemma fetch_ipfs_first:
  "fetch_ipfs E name us h req =
     (case first_ipfs us of
        Inl e \<Rightarrow> Inl e
      | Inr None \<Rightarrow> Inr (None, req)
      | Inr (Some u) \<Rightarrow> performFetch E name (ipfs_gateway @ drop (length IPFS_PREFIX) u) h req)"
  by (induction us rule: first_ipfs.induct) auto

lemma processFetching_target:
  "processFetching E fileName urls h req =
     (case fetch_target fileName urls of
        Inl e \<Rightarrow> Inl e
      | Inr None \<Rightarrow> Inr (None, req)
      | Inr (Some url) \<Rightarrow> performFetch E (trim fileName) url h req)"
  by (auto simp: processFetching_def fetch_target_def Let_def fetch_ipfs_first
      split: sum.splits option.splits)

lemma performFetch_Inr:
  assumes "performFetch E name url h req = Inr (x, req')"
  shows "req' = req @ [url] \<and> (\<forall>t. x = Some t \<longrightarrow> strictly_equal (Web3_keccak256 E t) h)"
  using assms by (auto simp: performFetch_def split: fetch_result.splits if_splits)

lemma performFetch_failure:
  assumes "fetch E req url = Response status body"
      and "status \<noteq> 200 \<or> \<not> strictly_equal (Web3_keccak256 E body) h"
  shows "performFetch E name url h req = Inr (None, req @ [url])"
  using assms by (auto simp: performFetch_def)

lemma performFetch_rejected:
  assumes "fetch E req url = Rejected"
  shows "performFetch E name url h req = Inl FetchRejected"
  using assms by (simp add: performFetch_def)


lemma processFetching_requests:
  assumes "processFetching E fileName urls h req = Inr (x, req')"
  shows "(req' = req \<and> x = None \<and> fetch_target fileName urls = Inr None)
         \<or> (\<exists>url. fetch_target fileName urls = Inr (Some url) \<and> req' = req @ [url])"
  using assms performFetch_Inr [of E "trim fileName" _ h req x req']
  by (auto simp: processFetching_target split: sum.splits option.splits)

lemma trim_openzeppelin:
  assumes "startsWith fileName ''@openzeppelin''"
  shows "startsWith (trim fileName) ''@openzeppelin'' \<and> \<not> GITHUB_REGEX_test (trim fileName)"
proof -
  let ?p = "''@openzeppelin''"
  from assms have "fileName = ?p @ drop (length ?p) fileName"
    unfolding startsWith_def by (metis append_take_drop_id)
  then obtain rest where fn: "fileName = ?p @ rest" ..
  have 1: "dropWhile whitespace fileName = fileName"
    by (simp add: fn whitespace_def)
  have "\<exists>ys. dropWhile whitespace (rev rest @ rev ?p) = ys @ rev ?p"
  proof (cases "\<forall>x\<in>set (rev rest). whitespace x")
    case True
    then have "dropWhile whitespace (rev rest @ rev ?p) = dropWhile whitespace (rev ?p)"
      by (intro dropWhile_append2) auto
    also have "\<dots> = [] @ rev ?p" by (simp add: whitespace_def)
    finally show ?thesis by blast
  next
    case False
    then obtain x where "x \<in> set (rev rest)" "\<not> whitespace x" by blast
    then have "dropWhile whitespace (rev rest @ rev ?p) = dropWhile whitespace (rev rest) @ rev ?p"
      by (rule dropWhile_append1)
    then show ?thesis by blast
  qed
  then obtain ys where "dropWhile whitespace (rev fileName) = ys @ rev ?p"
    by (auto simp: fn)
  then have "trim fileName = ?p @ rev ys"
    by (simp add: trim_def 1)
  then show ?thesis
    by (simp add: startsWith_def GITHUB_REGEX_test_def)
qed

text \<open>
  For a path that starts with \<^verbatim>\<open>@openzeppelin\<close>, whatever \<^verbatim>\<open>urls\<close> is:
  \<^verbatim>\<open>processFetching\<close> throws a TypeError before any request (on \<^verbatim>\<open>urls\<close> that cannot
  be iterated, or on an element that is no string before the first URL with the prefix),
  or returns \<^verbatim>\<open>null\<close> without a request (no URL has the prefix), or is the one call
  of \<^verbatim>\<open>performFetch\<close> on the gateway URL of the first URL with the prefix.
\<close>

lemma processFetching_openzeppelin:
  assumes "startsWith fileName ''@openzeppelin''"
  shows "processFetching E fileName urls h req =
     (case for_of urls of
        Inl e \<Rightarrow> Inl e
      | Inr us \<Rightarrow>
          (case first_ipfs us of
             Inl e \<Rightarrow> Inl e
           | Inr None \<Rightarrow> Inr (None, req)
           | Inr (Some u) \<Rightarrow>
               performFetch E (trim fileName) (ipfs_gateway @ drop (length IPFS_PREFIX) u) h req))"
  using trim_openzeppelin [OF assms]
  by (simp add: processFetching_def fetch_ipfs_first split: sum.splits)

lemma fetch_target_proto_name: "fetch_target ''__proto__'' urls = Inr None"
  by (simp add: fetch_target_def trim_def whitespace_def GITHUB_REGEX_test_def startsWith_def)

text \<open>
  A source that reaches the fetcher, whose request is answered and fails (no 200, or a
  text with another digest), is recorded as missing after this one request.
\<close>

lemma failed_response_missing:
  assumes info: "get_prop (Some sourceInfo) ''content'' = Inr c"
      "get_prop (Some sourceInfo) ''keccak256'' = Inr h"
      "get_prop (Some sourceInfo) ''urls'' = Inr u"
    and reach: "\<not> truthy c"
      "\<forall>f. Map_get (hash2file st) h = Some f \<longrightarrow> \<not> truthy (file_content (files st) f)"
      "truthy u"
    and target: "fetch_target fileName u = Inr (Some url)"
    and response: "fetch E (requests st) url = Response status body"
    and failure: "status \<noteq> 200 \<or> \<not> strictly_equal (Web3_keccak256 E body) h"
  shows "resolveSource E fileName sourceInfo st =
           Inr (st\<lparr>requests := requests st @ [url],
                  missingSources := (missingSources st)(fileName \<mapsto> (h, u))\<rparr>)"
proof -
  let ?f = "case Map_get (hash2file st) h of Some f \<Rightarrow> f | None \<Rightarrow> Own c"
  have name: "fileName \<noteq> ''__proto__''"
    using target fetch_target_proto_name by auto
  have falsy: "\<not> truthy (file_content (files st) ?f)"
    using reach(1,2) by (auto split: option.splits)
  have p: "processFetching E fileName u h (requests st) = Inr (None, requests st @ [url])"
    using target performFetch_failure [OF response failure]
    by (simp add: processFetching_target)
  have "resolveSource E fileName sourceInfo st = resolveFile E fileName h u ?f st"
    using info reach(1) by (simp add: resolveSource_def)
  also have "\<dots> = Inr (classify fileName h u ?f (st\<lparr>requests := requests st @ [url]\<rparr>))"
    using falsy reach(3) p by (simp add: resolveFile_def)
  also have "classify fileName h u ?f (st\<lparr>requests := requests st @ [url]\<rparr>) =
      st\<lparr>requests := requests st @ [url],
         missingSources := (missingSources st)(fileName \<mapsto> (h, u))\<rparr>"
    using falsy name by (simp add: classify_falsy)
  finally show ?thesis .
qed



subsection \<open>Sources settled without a fetch\<close>

text \<open>
  A declared source without truthy inline content whose declared hash is the digest of
  files of the batch, none of them empty, is stored in \<^verbatim>\<open>foundSources\<close> with one of
  these files, unless it is named \<^verbatim>\<open>__proto__\<close>.
\<close>

lemma found_by_digest:
  assumes run: "rearrangeSources E md fs requested = Inr res"
      and entries: "source_entries md = Inr entries" "distinct (map fst entries)"
      and entry: "(fileName, sourceInfo) \<in> set entries"
      and name: "fileName \<noteq> ''__proto__''"
      and no_inline: "get_prop (Some sourceInfo) ''content'' = Inr c" "\<not> truthy c"
      and declared: "get_prop (Some sourceInfo) ''keccak256'' = Inr h" "strictly_equal k h"
      and candidate: "\<exists>f \<in> set fs. Web3_keccak256 E (content f) = k"
      and nonempty: "\<forall>f \<in> set fs. Web3_keccak256 E (content f) = k \<longrightarrow> content f \<noteq> []"
  shows "\<exists>f \<in> set fs. Web3_keccak256 E (content f) = k
           \<and> foundSources res fileName = Some \<lparr>path = path f, content = Some (JString (content f))\<rparr>
           \<and> missingSources res fileName = None \<and> invalidSources res fileName = None"
proof -
  let ?st0 = "initial_state E fs requested"
  from run entries(1) have loop: "rearrange_loop E entries ?st0 = Inr res"
    by (simp add: rearrangeSources_def)
  from candidate obtain i where i: "i < length fs"
    "storeByHash E fs k = Some (Candidate i)"
    "Web3_keccak256 E (content (fs ! i)) = k"
    using storeByHash_candidate [of _ fs E] by metis
  from i nonempty have ne: "content (fs ! i) \<noteq> []" by auto
  from loop entry entries(2) obtain pre post st1 st2 where
    sp: "fileName \<notin> fst ` set pre" "fileName \<notin> fst ` set post"
      "rearrange_loop E pre ?st0 = Inr st1"
      "resolveSource E fileName sourceInfo st1 = Inr st2"
      "rearrange_loop E post st2 = Inr res"
    by (rule rearrange_loop_entry)
  have 0: "hash2file ?st0 k = Some (Candidate i)"
    "truthy (file_content (files ?st0) (Candidate i))"
    using i ne by (simp_all add: initial_state_def)
  from rearrange_loop_stable [OF sp(3) 0]
  have 1: "hash2file st1 k = Some (Candidate i)"
    "content (files st1 ! i) = content (fs ! i)" "path (files st1 ! i) = path (fs ! i)"
    by (simp_all add: initial_state_def)
  from rearrange_loop_frame [OF sp(3) sp(1)]
  have e1: "missingSources st1 fileName = None" "invalidSources st1 fileName = None"
    by (simp_all add: initial_state_def)
  from get_prop_defined [OF no_inline(1)] obtain u where
    u: "get_prop (Some sourceInfo) ''urls'' = Inr u" by blast
  have g: "Map_get (hash2file st1) h = Some (Candidate i)"
    using Map_get_strict [OF declared(2), of "hash2file st1"] 1(1) by simp
  have "resolveSource E fileName sourceInfo st1 = resolveFile E fileName h u (Candidate i) st1"
    using no_inline declared(1) u g by (simp add: resolveSource_def)
  also have "\<dots> = Inr (classify fileName h u (Candidate i) st1)"
    using 1(2) ne by (simp add: resolveFile_truthy)
  also have "classify fileName h u (Candidate i) st1 =
      st1\<lparr>foundSources := (foundSources st1)
           (fileName \<mapsto> \<lparr>path = path (fs ! i), content = Some (JString (content (fs ! i)))\<rparr>)\<rparr>"
    using 1(2,3) ne name by (simp add: classify_truthy)
  finally have "st2 = st1\<lparr>foundSources := (foundSources st1)
      (fileName \<mapsto> \<lparr>path = path (fs ! i), content = Some (JString (content (fs ! i)))\<rparr>)\<rparr>"
    using sp(4) by simp
  with e1 have 2: "foundSources st2 fileName =
      Some \<lparr>path = path (fs ! i), content = Some (JString (content (fs ! i)))\<rparr>"
    "missingSources st2 fileName = None" "invalidSources st2 fileName = None"
    by simp_all
  from rearrange_loop_frame [OF sp(5) sp(2)] 2
  have "foundSources res fileName =
      Some \<lparr>path = path (fs ! i), content = Some (JString (content (fs ! i)))\<rparr>"
    "missingSources res fileName = None" "invalidSources res fileName = None"
    by simp_all
  with i show ?thesis by (auto intro!: bexI [of _ "fs ! i"])
qed

text \<open>
  Under the name \<^verbatim>\<open>__proto__\<close> nothing is stored: an iteration that finds inline
  content with another digest returns the state as it was, and no iteration leaves a
  property of that name in a result.
\<close>

lemma inline_mismatch_proto_name:
  assumes "get_prop (Some sourceInfo) ''content'' = Inr c" "truthy c"
      and "get_prop (Some sourceInfo) ''keccak256'' = Inr h"
      and "keccak256_of E c = Inr d" "loosely_equal E d h = Inr False"
  shows "resolveSource E ''__proto__'' sourceInfo st = Inr st"
proof -
  from get_prop_defined [OF assms(1)] obtain u where
    "get_prop (Some sourceInfo) ''urls'' = Inr u" by blast
  with assms show ?thesis by (simp add: resolveSource_def assign_proto_name)
qed

lemma rearrangeSources_proto_name:
  assumes "rearrangeSources E md fs requested = Inr res"
  shows "foundSources res ''__proto__'' = None \<and> missingSources res ''__proto__'' = None
         \<and> invalidSources res ''__proto__'' = None"
proof -
  from assms obtain entries where
    "rearrange_loop E entries (initial_state E fs requested) = Inr res"
    by (auto simp: rearrangeSources_def split: sum.splits)
  from rearrange_loop_proto_name [OF this] show ?thesis by (simp add: initial_state_def)
qed

subsection \<open>Expanding archives\<close>

text \<open>The loop of \<^verbatim>\<open>findInputFiles\<close>, one step at a time.\<close>

lemma findInputFiles_loop_Nil: "findInputFiles_loop E [] acc = Some (Inr acc)"
  by (simp add: findInputFiles_loop.simps)

lemma findInputFiles_loop_plain:
  assumes "AdmZip E (buffer zf) = NotZip"
  shows "findInputFiles_loop E (zf # rest) acc = findInputFiles_loop E rest (acc @ [zf])"
  using assms by (simp add: findInputFiles_loop.simps [of E "zf # rest"] isZip_def)

lemma findInputFiles_loop_archive:
  assumes "AdmZip E (buffer zf) = Zip (Some node)"
  shows "findInputFiles_loop E (zf # rest) acc =
           findInputFiles_loop E
             (rest @ map (\<lambda>b. \<lparr>pb_path = pb_path zf, buffer = b\<rparr>) (traverse_files node)) acc"
  using assms
  by (simp add: findInputFiles_loop.simps [of E "zf # rest"] isZip_def unzip_def
      traversePathRecursively_def)

lemma findInputFiles_loop_step:
  assumes "findInputFiles_loop E (zf # rest) acc = Some (Inr out)"
  obtains (plain) "AdmZip E (buffer zf) = NotZip"
      "findInputFiles_loop E rest (acc @ [zf]) = Some (Inr out)"
  | (archive) node where "AdmZip E (buffer zf) = Zip (Some node)"
      "findInputFiles_loop E
         (rest @ map (\<lambda>b. \<lparr>pb_path = pb_path zf, buffer = b\<rparr>) (traverse_files node)) acc
       = Some (Inr out)"
proof (cases "AdmZip E (buffer zf)")
  case NotZip
  with assms show ?thesis by (intro plain) (simp_all add: findInputFiles_loop_plain)
next
  case Corrupt
  with assms show ?thesis
    by (simp add: findInputFiles_loop.simps [of E "zf # rest"] isZip_def unzip_def)
next
  case (Zip tmpDir)
  show ?thesis
  proof (cases tmpDir)
    case None
    with assms Zip show ?thesis
      by (simp add: findInputFiles_loop.simps [of E "zf # rest"] isZip_def unzip_def
          traversePathRecursively_def)
  next
    case (Some node)
    with assms Zip show ?thesis
      by (intro archive [of node]) (simp_all add: findInputFiles_loop_archive)
  qed
qed

text \<open>What a file stands for, by the two cases of the loop.\<close>

lemma expands_to_plain:
  assumes "AdmZip E (buffer f) = NotZip"
  shows "expands_to E f g \<longleftrightarrow> g = f"
  using assms by (auto elim: expands_to.cases intro: expands_to.intros)

lemma expands_to_archive:
  assumes "AdmZip E (buffer f) = Zip (Some node)"
  shows "expands_to E f g \<longleftrightarrow>
           (\<exists>c\<in>set (traverse_files node). expands_to E \<lparr>pb_path = pb_path f, buffer = c\<rparr> g)"
proof
  assume "expands_to E f g"
  then show "\<exists>c\<in>set (traverse_files node). expands_to E \<lparr>pb_path = pb_path f, buffer = c\<rparr> g"
  proof (cases rule: expands_to.cases)
    case plain_file
    with assms show ?thesis by simp
  next
    case (archive_entry node' c)
    with assms have "node' = node" by simp
    with archive_entry show ?thesis by blast
  qed
next
  assume "\<exists>c\<in>set (traverse_files node). expands_to E \<lparr>pb_path = pb_path f, buffer = c\<rparr> g"
  with assms show "expands_to E f g" by (blast intro: expands_to.archive_entry)
qed

lemma expands_to_result:
  assumes "expands_to E f g"
  shows "\<not> isZip E (buffer g) \<and> pb_path g = pb_path f"
  using assms by (induction rule: expands_to.induct) (simp_all add: isZip_def)

text \<open>
  Whatever the loop returns is what it had collected and what the files still to visit
  stand for.
\<close>

lemma findInputFiles_loop_result:
  assumes run: "findInputFiles_loop E work acc = Some r"
  shows "\<forall>out. r = Inr out \<longrightarrow> set out = set acc \<union> {g. \<exists>f\<in>set work. expands_to E f g}"
proof (rule findInputFiles_loop.raw_induct [where P = "\<lambda>E work acc r.
        \<forall>out. r = Inr out \<longrightarrow> set out = set acc \<union> {g. \<exists>f\<in>set work. expands_to E f g}",
      OF _ run], goal_cases)
  case (1 loop E' work' acc' r')
  show ?case
  proof (intro allI impI)
    fix out
    assume r: "r' = Inr out"
    show "set out = set acc' \<union> {g. \<exists>f\<in>set work'. expands_to E' f g}"
    proof (cases work')
      case Nil
      with 1(2) r show ?thesis by auto
    next
      case (Cons zf rest)
      show ?thesis
      proof (cases "AdmZip E' (buffer zf)")
        case NotZip
        with 1(2) Cons have l: "loop E' rest (acc' @ [zf]) = Some r'"
          by (simp add: isZip_def)
        from 1(1) [OF l] r
        have "set out = set (acc' @ [zf]) \<union> {g. \<exists>f\<in>set rest. expands_to E' f g}" by simp
        then show ?thesis using Cons expands_to_plain [OF NotZip] by auto
      next
        case Corrupt
        with 1(2) Cons r show ?thesis by (simp add: isZip_def unzip_def)
      next
        case (Zip tmpDir)
        show ?thesis
        proof (cases tmpDir)
          case None
          with 1(2) Cons r Zip show ?thesis
            by (simp add: isZip_def unzip_def traversePathRecursively_def)
        next
          case (Some node)
          let ?ex = "map (\<lambda>b. \<lparr>pb_path = pb_path zf, buffer = b\<rparr>) (traverse_files node)"
          from 1(2) Cons Zip Some have l: "loop E' (rest @ ?ex) acc' = Some r'"
            by (simp add: isZip_def unzip_def traversePathRecursively_def)
          from 1(1) [OF l] r
          have "set out = set acc' \<union> {g. \<exists>f\<in>set (rest @ ?ex). expands_to E' f g}" by simp
          moreover have "expands_to E' zf g \<longleftrightarrow> (\<exists>f\<in>set ?ex. expands_to E' f g)" for g
            using expands_to_archive [of E' zf node g] Zip Some by auto
          ultimately show ?thesis using Cons by auto
        qed
      qed
    qed
  qed
qed

text \<open>
  The loop returns when archives nest to a finite depth and can be extracted: on files
  whose buffers are in a set that is \<open>extractable\<close>.
\<close>

lemma extractable_cases:
  assumes "extractable E rank S" "b \<in> S"
  obtains (plain) "AdmZip E b = NotZip"
  | (archive) node where "AdmZip E b = Zip (Some node)"
      "\<forall>c\<in>set (traverse_files node). c \<in> S \<and> rank c < rank b"
proof (cases "AdmZip E b")
  case NotZip
  then show ?thesis by (rule plain)
next
  case Corrupt
  with assms show ?thesis by (auto simp: extractable_def)
next
  case (Zip tmpDir)
  show ?thesis
  proof (cases tmpDir)
    case None
    with assms Zip show ?thesis by (auto simp: extractable_def)
  next
    case (Some node)
    with assms Zip have "\<forall>c\<in>set (traverse_files node). c \<in> S \<and> rank c < rank b"
      by (auto simp: extractable_def)
    with Zip Some show ?thesis by (intro archive [of node]) simp_all
  qed
qed

lemma findInputFiles_loop_returns:
  fixes rank :: "Buffer \<Rightarrow> nat"
  assumes ex: "extractable E rank S"
      and work: "buffer ` set work \<subseteq> S"
  shows "\<exists>out. findInputFiles_loop E work acc = Some (Inr out)"
proof -
  have "\<forall>work acc. mset (map (\<lambda>f. rank (buffer f)) work) = M \<longrightarrow> buffer ` set work \<subseteq> S \<longrightarrow>
          (\<exists>out. findInputFiles_loop E work acc = Some (Inr out))" for M
  proof (induction M rule: wf_induct_rule [OF wf_less_multiset])
    case (1 M)
    show ?case
    proof (intro allI impI)
      fix work acc :: "PathBuffer list"
      assume M: "mset (map (\<lambda>f. rank (buffer f)) work) = M"
        and S: "buffer ` set work \<subseteq> S"
      show "\<exists>out. findInputFiles_loop E work acc = Some (Inr out)"
      proof (cases work)
        case Nil
        then show ?thesis by (simp add: findInputFiles_loop_Nil)
      next
        case (Cons zf rest)
        let ?R = "mset (map (\<lambda>f. rank (buffer f)) rest)"
        have MR: "M = ?R + {#rank (buffer zf)#}" using M Cons by simp
        from S Cons have zf: "buffer zf \<in> S" and rest: "buffer ` set rest \<subseteq> S" by auto
        from ex zf show ?thesis
        proof (cases rule: extractable_cases)
          case plain
          have "(?R, M) \<in> {(M, N). M < N}" unfolding MR by simp
          from 1 [OF this] rest obtain out where
            "findInputFiles_loop E rest (acc @ [zf]) = Some (Inr out)" by blast
          then show ?thesis using Cons plain by (simp add: findInputFiles_loop_plain)
        next
          case (archive node)
          let ?ex = "map (\<lambda>b. \<lparr>pb_path = pb_path zf, buffer = b\<rparr>) (traverse_files node)"
          let ?K = "mset (map rank (traverse_files node))"
          have "\<forall>k\<in>#?K. \<exists>j\<in>#{#rank (buffer zf)#}. k < j"
            using archive(2) by auto
          then have "multp (<) (?R + ?K) (?R + {#rank (buffer zf)#})"
            by (intro one_step_implies_multp) simp_all
          then have less: "?R + ?K < M" unfolding MR by (simp add: less_multiset_def)
          have eq: "mset (map (\<lambda>f. rank (buffer f)) (rest @ ?ex)) = ?R + ?K"
            by (simp add: comp_def)
          have S': "buffer ` set (rest @ ?ex) \<subseteq> S"
            using rest archive(2) by auto
          from less have "(?R + ?K, M) \<in> {(M, N). M < N}" by simp
          from 1 [OF this] eq S'
          obtain out where "findInputFiles_loop E (rest @ ?ex) acc = Some (Inr out)"
            by blast
          then show ?thesis using Cons archive(1) by (simp add: findInputFiles_loop_archive)
        qed
      qed
    qed
  qed
  with work show ?thesis by blast
qed

text \<open>A batch without archives is returned as it is.\<close>

lemma findInputFiles_no_archive:
  assumes "\<forall>f\<in>set work. AdmZip E (buffer f) = NotZip"
  shows "findInputFiles_loop E work acc = Some (Inr (acc @ work))"
  using assms
proof (induction work arbitrary: acc)
  case Nil
  then show ?case by (simp add: findInputFiles_loop_Nil)
next
  case (Cons zf rest)
  then have "findInputFiles_loop E rest (acc @ [zf]) = Some (Inr ((acc @ [zf]) @ rest))"
    by simp
  with Cons.prems show ?case by (simp add: findInputFiles_loop_plain)
qed

lemma findInputFiles_corrupt:
  assumes "AdmZip E (buffer zf) = Corrupt"
  shows "findInputFiles E (zf # rest) = Some (Inl AdmZipError)"
  using assms
  by (simp add: findInputFiles_def findInputFiles_loop.simps [of E "zf # rest"] isZip_def
      unzip_def)

subsection \<open>A batch without metadata\<close>

text \<open>
  When the expansion of archives ends and no file of the batch is recognised as a
  metadata document, \<^verbatim>\<open>checkFiles\<close> throws the error of \<^verbatim>\<open>findMetadataFiles\<close> and
  returns no contract.
\<close>

lemma findMetadataFiles_loop_none:
  assumes "\<forall>f\<in>set fs. metadata_of_file E f = None"
  shows "findMetadataFiles_loop E fs acc = Inr acc"
  using assms by (induction fs) auto

lemma checkFiles_no_metadata:
  assumes "findInputFiles E batch = Some (Inr inputFiles)"
      and "\<forall>f\<in>set (parse_files E inputFiles). metadata_of_file E f = None"
  shows "checkFiles E batch = Some (Inl NoMetadataFound)"
  using assms by (simp add: checkFiles_def findMetadataFiles_def findMetadataFiles_loop_none)

section \<open>The claims\<close>

subsection \<open>C1: a source found by the digest of a file of the batch\<close>

text \<open>
  Claim C1 says that a declared source without inline content is classified Found, with
  the content of the file, whenever some file of the batch has content with the declared
  digest. An empty file breaks this. The Keccak-256 digest of the empty string is
  \<open>empty_hash\<close>; the library answers \<^verbatim>\<open>null\<close> for the empty string, so
  \<^verbatim>\<open>storeByHash\<close> files an empty file under \<^verbatim>\<open>null\<close>, and the lookup of the declared
  digest finds nothing. In the batch below the metadata document declares
  \<^verbatim>\<open>browser/1_Storage.sol\<close> and the empty \<^verbatim>\<open>browser/Empty.sol\<close>, each with the digest
  of its content, and both files are in the batch: the first is found, the empty one is
  recorded as missing.
\<close>

theorem checkFiles_empty_source_missing:
  "Web3_keccak256 E_ex [] = None
   \<and> (case checkFiles E_ex [\<lparr>pb_path = Some ''metadata.json'', buffer = empty_source_json\<rparr>,
                            \<lparr>pb_path = Some ''1_Storage.sol'', buffer = storage_sol\<rparr>,
                            \<lparr>pb_path = Some ''Empty.sol'', buffer = []\<rparr>] of
        None \<Rightarrow> False
      | Some (Inl e) \<Rightarrow> False
      | Some (Inr (checkedContracts, requested)) \<Rightarrow>
          map metadata checkedContracts = [empty_source_doc]
          \<and> map (\<lambda>c. solidity c ''browser/1_Storage.sol'') checkedContracts
              = [Some \<lparr>path = Some ''1_Storage.sol'', content = Some (JString storage_sol)\<rparr>]
          \<and> map (\<lambda>c. solidity c ''browser/Empty.sol'') checkedContracts = [None]
          \<and> map (\<lambda>c. missing c ''browser/Empty.sol'') checkedContracts
              = [Some (Some (JString empty_hash), None)])"
  by (simp add: checkFiles_def expand_defs parse_files_def scan_defs run_defs ex_defs)

subsection \<open>C2: inline content with another digest\<close>




subsection \<open>C3: the paths for which a fetch is attempted\<close>

text \<open>
  Claim C3 says that a fetch is attempted only for a declared path that matches the
  GitHub pattern or starts with \<^verbatim>\<open>@openzeppelin\<close>. The code tests the path after
  \<^verbatim>\<open>trim()\<close>. What holds: when the trimmed path neither matches the pattern nor
  starts with \<^verbatim>\<open>@openzeppelin\<close>, \<^verbatim>\<open>processFetching\<close> returns \<^verbatim>\<open>null\<close> and requests
  nothing, whatever the URLs and the hash are, and no iteration of \<^verbatim>\<open>rearrangeSources\<close>
  for that path requests anything or throws because of a fetch: an iteration returns
  with the requests as they were, or the entry is one on which the loop body throws
  under every path and in every state (an entry \<^verbatim>\<open>null\<close>, or inline content that
  cannot be hashed or compared). On an entry whose content is a string or falsy and whose
  hash is a string, \<^verbatim>\<open>null\<close> or not there, it returns.
\<close>

theorem processFetching_untrusted_path:
  assumes "\<not> GITHUB_REGEX_test (trim fileName)"
      and "\<not> startsWith (trim fileName) ''@openzeppelin''"
  shows "processFetching E fileName urls h requested = Inr (None, requested)
         \<and> (\<forall>sourceInfo st.
               (\<exists>st'. resolveSource E fileName sourceInfo st = Inr st' \<and> requests st' = requests st)
               \<or> (\<exists>e. \<forall>fileName' st'. resolveSource E fileName' sourceInfo st' = Inl e))
         \<and> (\<forall>kvs st.
               (\<forall>v. map_of kvs ''content'' = Some v \<longrightarrow> truthy (Some v) \<longrightarrow> (\<exists>s. v = JString s))
               \<longrightarrow> (\<forall>v. map_of kvs ''keccak256'' = Some v \<longrightarrow> (\<exists>s. v = JString s) \<or> v = JNull)
               \<longrightarrow> (\<exists>st'. resolveSource E fileName (JObject kvs) st = Inr st'
                          \<and> requests st' = requests st))"
proof -
  have p: "\<And>urls h requested. processFetching E fileName urls h requested = Inr (None, requested)"
    using assms by (simp add: processFetching_def)
  have rf: "\<exists>st'. resolveFile E fileName h u f st = Inr st' \<and> requests st' = requests st"
    for h u f st
    by (cases st) (auto simp: resolveFile_def p classify_same)
  have source: "(\<exists>st'. resolveSource E fileName sourceInfo st = Inr st' \<and> requests st' = requests st)
      \<or> (\<exists>e. \<forall>fileName' st'. resolveSource E fileName' sourceInfo st' = Inl e)"
    for sourceInfo st
  proof (cases "get_prop (Some sourceInfo) ''content''")
    case (Inl e)
    then show ?thesis by (auto simp: resolveSource_def)
  next
    case c: (Inr c)
    from get_prop_defined [OF c] obtain h u where
      g: "get_prop (Some sourceInfo) ''keccak256'' = Inr h"
         "get_prop (Some sourceInfo) ''urls'' = Inr u" by blast
    show ?thesis
    proof (cases "truthy c")
      case False
      with c g rf show ?thesis by (simp add: resolveSource_def)
    next
      case True
      show ?thesis
      proof (cases "keccak256_of E c")
        case (Inl e)
        with c g True show ?thesis by (auto simp: resolveSource_def)
      next
        case d: (Inr d)
        show ?thesis
        proof (cases "loosely_equal E d h")
          case (Inl e)
          with c g True d show ?thesis by (auto simp: resolveSource_def)
        next
          case (Inr equal)
          with c g True d rf show ?thesis by (cases equal) (simp_all add: resolveSource_def)
        qed
      qed
    qed
  qed
  have typed: "\<exists>st'. resolveSource E fileName (JObject kvs) st = Inr st' \<and> requests st' = requests st"
    if content: "\<forall>v. map_of kvs ''content'' = Some v \<longrightarrow> truthy (Some v) \<longrightarrow> (\<exists>s. v = JString s)"
      and hash: "\<forall>v. map_of kvs ''keccak256'' = Some v \<longrightarrow> (\<exists>s. v = JString s) \<or> v = JNull"
    for kvs st
  proof (cases "truthy (map_of kvs ''content'')")
    case False
    with rf show ?thesis by (simp add: resolveSource_def)
  next
    case True
    with content obtain s where s: "map_of kvs ''content'' = Some (JString s)"
      by (cases "map_of kvs ''content''") auto
    have "\<exists>equal. loosely_equal E (Web3_keccak256 E s) (map_of kvs ''keccak256'') = Inr equal"
      using hash
      by (cases "Web3_keccak256 E s"; cases "map_of kvs ''keccak256''") auto
    then obtain equal where
      "loosely_equal E (Web3_keccak256 E s) (map_of kvs ''keccak256'') = Inr equal" ..
    with s True rf show ?thesis
      by (cases equal) (simp_all add: resolveSource_def keccak256_of_def)
  qed
  from p source typed show ?thesis by blast
qed

theorem processFetching_untrusted_path_witness:
  "\<not> GITHUB_REGEX_test (trim ''browser/1_Storage.sol'')
   \<and> \<not> startsWith (trim ''browser/1_Storage.sol'') ''@openzeppelin''
   \<and> processFetching E_ex ''browser/1_Storage.sol'' (Some (JArray [JString ''dweb:/ipfs/QmSafeMath'']))
         (Some (JString safemath_hash)) []
       = Inr (None, [])
   \<and> (\<exists>st'. resolveSource E_ex ''browser/1_Storage.sol''
               (JObject [(''keccak256'', JString safemath_hash),
                         (''urls'', JArray [JString ''dweb:/ipfs/QmSafeMath''])])
               (initial_state E_ex [storage_file] []) = Inr st'
            \<and> requests st' = [])"
proof -
  let ?kvs = "[(''keccak256'', JString safemath_hash),
               (''urls'', JArray [JString ''dweb:/ipfs/QmSafeMath''])]"
  have 1: "\<not> GITHUB_REGEX_test (trim ''browser/1_Storage.sol'')"
    and 2: "\<not> startsWith (trim ''browser/1_Storage.sol'') ''@openzeppelin''"
    by (simp_all add: trim_def whitespace_def GITHUB_REGEX_test_def startsWith_def)
  note t = processFetching_untrusted_path [OF 1 2, of E_ex
      "Some (JArray [JString ''dweb:/ipfs/QmSafeMath''])" "Some (JString safemath_hash)" "[]"]
  from t have p: "processFetching E_ex ''browser/1_Storage.sol''
      (Some (JArray [JString ''dweb:/ipfs/QmSafeMath''])) (Some (JString safemath_hash)) []
       = Inr (None, [])" by blast
  from t have "\<forall>kvs st.
       (\<forall>v. map_of kvs ''content'' = Some v \<longrightarrow> truthy (Some v) \<longrightarrow> (\<exists>s. v = JString s))
       \<longrightarrow> (\<forall>v. map_of kvs ''keccak256'' = Some v \<longrightarrow> (\<exists>s. v = JString s) \<or> v = JNull)
       \<longrightarrow> (\<exists>st'. resolveSource E_ex ''browser/1_Storage.sol'' (JObject kvs) st = Inr st'
                  \<and> requests st' = requests st)" by blast
  then have "\<exists>st'. resolveSource E_ex ''browser/1_Storage.sol'' (JObject ?kvs)
               (initial_state E_ex [storage_file] []) = Inr st'
            \<and> requests st' = requests (initial_state E_ex [storage_file] [])"
    by simp
  then have "\<exists>st'. resolveSource E_ex ''browser/1_Storage.sol'' (JObject ?kvs)
               (initial_state E_ex [storage_file] []) = Inr st' \<and> requests st' = []"
    by (simp add: initial_state_def)
  with 1 2 p show ?thesis by blast
qed

text \<open>
  The claim as stated fails on a path with a leading blank: it does not start with
  \<^verbatim>\<open>@openzeppelin\<close> and does not match the pattern, and its IPFS URL is fetched.
\<close>

theorem untrimmed_path_is_fetched:
  "\<not> GITHUB_REGEX_test '' @openzeppelin/contracts/math/SafeMath.sol''
   \<and> \<not> startsWith '' @openzeppelin/contracts/math/SafeMath.sol'' ''@openzeppelin''
   \<and> processFetching E_ex '' @openzeppelin/contracts/math/SafeMath.sol''
         (Some (JArray [JString ''dweb:/ipfs/QmSafeMath''])) (Some (JString safemath_hash)) []
       = Inr (Some safemath_sol, [gateway_good])"
  by (simp add: run_defs ex_defs)

subsection \<open>C4: a fetch that fails\<close>

text \<open>
  Claim C4 says that a fetch that fails is no exception and does not abort the batch: the
  source is recorded as missing. That holds when \<^verbatim>\<open>fetch\<close> answers and the answer is
  no 200 or a text with another digest (lemma \<open>failed_response_missing\<close>). It fails
  when the promise of \<^verbatim>\<open>fetch\<close> is rejected (no connection): \<^verbatim>\<open>performFetch\<close> awaits
  it outside any \<^verbatim>\<open>try\<close>, the rejection leaves \<^verbatim>\<open>rearrangeSources\<close> and
  \<^verbatim>\<open>checkFiles\<close>, and no contract is returned. In the batch below the metadata
  document declares \<^verbatim>\<open>browser/1_Storage.sol\<close>, which is in the batch, and a file under
  a GitHub path, whose request is rejected.
\<close>

theorem checkFiles_rejected_fetch_aborts:
  "fetch_target ''https://github.com/example/lib/Other.sol'' (Some (JArray [JString ''bzz-raw://e3b0c4'']))
     = Inr (Some ''https://raw.githubusercontent.com/example/lib/Other.sol'')
   \<and> fetch E_ex [] ''https://raw.githubusercontent.com/example/lib/Other.sol'' = Rejected
   \<and> checkFiles E_ex [\<lparr>pb_path = Some ''metadata.json'', buffer = github_json\<rparr>,
                      \<lparr>pb_path = Some ''1_Storage.sol'', buffer = storage_sol\<rparr>]
       = Some (Inl FetchRejected)"
  by (simp add: checkFiles_def expand_defs parse_files_def scan_defs run_defs fetch_target_def
      ex_defs)

subsection \<open>C5: the fatal conditions of \<^verbatim>\<open>checkFiles\<close>\<close>

text \<open>
  Claim C5 says that a batch without a recognised metadata document fails with an error
  and no result (lemma \<open>checkFiles_no_metadata\<close>), and that this is the only fatal
  condition for a batch in memory. The second part fails: a file that is recognised as
  metadata (language Solidity, a compiler) and has no \<^verbatim>\<open>settings\<close> makes
  \<^verbatim>\<open>findMetadataFiles\<close> read \<^verbatim>\<open>compilationTarget\<close> of \<^verbatim>\<open>undefined\<close>, and
  \<^verbatim>\<open>checkFiles\<close> ends in a TypeError although a well-formed source file is present.
\<close>

theorem checkFiles_throws_TypeError:
  "checkFiles E_ex [\<lparr>pb_path = Some ''metadata.json'', buffer = bare_json\<rparr>,
                    \<lparr>pb_path = Some ''1_Storage.sol'', buffer = storage_sol\<rparr>]
     = Some (Inl TypeError)"
  by (simp add: checkFiles_def expand_defs parse_files_def scan_defs ex_defs)

subsection \<open>C6: what the index is built from\<close>

text \<open>
  Claim C6 says that the index is built from the inputs that are not metadata
  documents. \<^verbatim>\<open>checkFiles\<close> passes every parsed file to \<^verbatim>\<open>rearrangeSources\<close>, and
  \<^verbatim>\<open>storeByHash\<close> hashes each of them. What holds: for every file of the batch left
  after the expansion of archives, recognised as metadata or not, the index that a pass
  over the parsed batch starts from has an entry under the digest of its text, which
  refers to a file of the batch with this digest.
\<close>

theorem index_holds_every_input:
  assumes "pb \<in> set inputFiles"
  shows "\<exists>i < length inputFiles.
           hash2file (initial_state E (parse_files E inputFiles) requested)
             (Web3_keccak256 E (Buffer_toString E (buffer pb))) = Some (Candidate i)
           \<and> Web3_keccak256 E (Buffer_toString E (buffer (inputFiles ! i)))
               = Web3_keccak256 E (Buffer_toString E (buffer pb))"
proof -
  let ?f = "\<lparr>path = pb_path pb, content = Buffer_toString E (buffer pb)\<rparr>"
  have "?f \<in> set (parse_files E inputFiles)"
    using assms by (auto simp: parse_files_def)
  from storeByHash_candidate [OF this, of E]
  show ?thesis by (auto simp: initial_state_def parse_files_def)
qed

theorem index_holds_every_input_witness:
  "metadata_of_file E_ex \<lparr>path = Some ''B.json'', content = b_json\<rparr> = Some b_doc
   \<and> hash2file (initial_state E_ex
         (parse_files E_ex [\<lparr>pb_path = Some ''A.json'', buffer = a_json\<rparr>,
                            \<lparr>pb_path = Some ''B.json'', buffer = b_json\<rparr>]) [])
        (Some b_hash) = Some (Candidate 1)"
proof -
  let ?A = "\<lparr>pb_path = Some ''A.json'', buffer = a_json\<rparr>"
  let ?B = "\<lparr>pb_path = Some ''B.json'', buffer = b_json\<rparr>"
  have m: "metadata_of_file E_ex \<lparr>path = Some ''B.json'', content = b_json\<rparr> = Some b_doc"
    by (simp add: scan_defs ex_defs)
  have k: "Web3_keccak256 E_ex (Buffer_toString E_ex (buffer ?B)) = Some b_hash"
    "Web3_keccak256 E_ex (Buffer_toString E_ex (buffer ?A)) \<noteq> Some b_hash"
    by (simp_all add: ex_defs)
  have "?B \<in> set [?A, ?B]" by simp
  from index_holds_every_input [OF this, of E_ex "[]"]
  obtain i where i: "i < length [?A, ?B]"
    "hash2file (initial_state E_ex (parse_files E_ex [?A, ?B]) [])
       (Web3_keccak256 E_ex (Buffer_toString E_ex (buffer ?B))) = Some (Candidate i)"
    "Web3_keccak256 E_ex (Buffer_toString E_ex (buffer ([?A, ?B] ! i)))
       = Web3_keccak256 E_ex (Buffer_toString E_ex (buffer ?B))"
    by blast
  from i(1) have "i = 0 \<or> i = 1" by auto
  with i(3) k have "i = 1" by auto
  with i(2) k(1) m show ?thesis by simp
qed

text \<open>
  The claim as stated fails on a batch of two metadata documents, the first declaring a
  source with the digest of the second: both are recognised, and the source of the first
  is Found with the text of the second.
\<close>

theorem metadata_file_serves_as_source:
  "(case checkFiles E_ex [\<lparr>pb_path = Some ''A.json'', buffer = a_json\<rparr>,
                          \<lparr>pb_path = Some ''B.json'', buffer = b_json\<rparr>] of
      None \<Rightarrow> False
    | Some (Inl e) \<Rightarrow> False
    | Some (Inr (checkedContracts, requested)) \<Rightarrow>
        map metadata checkedContracts = [a_doc, b_doc]
        \<and> map (\<lambda>c. solidity c ''a.sol'') checkedContracts
            = [Some \<lparr>path = Some ''B.json'', content = Some (JString b_json)\<rparr>, None])"
  by (simp add: checkFiles_def expand_defs parse_files_def scan_defs run_defs ex_defs)

subsection \<open>C7: blobs that are recognised but incomplete\<close>

text \<open>
  Claim C7 says that scanning for metadata never throws but for the batch without
  metadata, also for a blob that is recognised by its language and compiler and lacks
  the rest. On such a blob without \<^verbatim>\<open>settings\<close> the code throws a TypeError: it is
  recognised, and the count of its compilation targets is computed outside the
  \<^verbatim>\<open>try\<close>.
\<close>

theorem findMetadataFiles_throws_TypeError:
  "extractMetadataFromString E_ex bare_json = Some bare_doc
   \<and> findMetadataFiles E_ex [\<lparr>path = Some ''metadata.json'', content = bare_json\<rparr>] = Inl TypeError"
  by (simp add: scan_defs ex_defs)

subsection \<open>C8: archives inside archives\<close>

text \<open>
  Claim C8 says that an archive inside an archive is not expanded. \<^verbatim>\<open>unzip\<close> pushes
  what it extracts onto the array \<^verbatim>\<open>findInputFiles\<close> is iterating over, so the
  extracted files are examined in turn, and an archive among them is expanded too. What
  holds: when the buffers of the batch lie in a set of buffers in which archives nest to
  a finite depth and can be extracted, \<^verbatim>\<open>findInputFiles\<close> returns, and its result holds
  exactly what the files of the batch stand for when archives are expanded at every
  depth: every file of the batch that is no archive, as it is, and every file extracted
  from an archive of the batch, directly or through archives inside it, under the path
  of the archive of the batch; no file of the result is an archive.
\<close>

theorem findInputFiles_expands_every_archive:
  fixes rank :: "Buffer \<Rightarrow> nat"
  assumes nesting: "extractable E rank S"
      and batch: "buffer ` set batch \<subseteq> S"
  shows "\<exists>inputFiles. findInputFiles E batch = Some (Inr inputFiles)
           \<and> set inputFiles = {g. \<exists>f\<in>set batch. expands_to E f g}
           \<and> (\<forall>g\<in>set inputFiles. \<not> isZip E (buffer g) \<and> pb_path g \<in> pb_path ` set batch)"
proof -
  from findInputFiles_loop_returns [OF nesting batch, of "[]"]
  obtain inputFiles where run: "findInputFiles_loop E batch [] = Some (Inr inputFiles)"
    by blast
  from findInputFiles_loop_result [OF run]
  have res: "set inputFiles = {g. \<exists>f\<in>set batch. expands_to E f g}" by simp
  have "\<not> isZip E (buffer g) \<and> pb_path g \<in> pb_path ` set batch" if "g \<in> set inputFiles" for g
  proof -
    from that res obtain f where "f \<in> set batch" "expands_to E f g" by auto
    with expands_to_result [of E f g] show ?thesis by auto
  qed
  with run res show ?thesis by (auto simp: findInputFiles_def)
qed

theorem findInputFiles_expands_every_archive_witness:
  "extractable E_ex rank_ex {outer_zip, inner_zip, storage_sol, b_json}
   \<and> findInputFiles E_ex [\<lparr>pb_path = Some ''upload.zip'', buffer = outer_zip\<rparr>,
                          \<lparr>pb_path = Some ''1_Storage.sol'', buffer = storage_sol\<rparr>]
       = Some (Inr [\<lparr>pb_path = Some ''1_Storage.sol'', buffer = storage_sol\<rparr>,
                    \<lparr>pb_path = Some ''upload.zip'', buffer = storage_sol\<rparr>,
                    \<lparr>pb_path = Some ''upload.zip'', buffer = b_json\<rparr>])
   \<and> {g. \<exists>f\<in>set [\<lparr>pb_path = Some ''upload.zip'', buffer = outer_zip\<rparr>,
                    \<lparr>pb_path = Some ''1_Storage.sol'', buffer = storage_sol\<rparr>].
            expands_to E_ex f g}
       = {\<lparr>pb_path = Some ''1_Storage.sol'', buffer = storage_sol\<rparr>,
          \<lparr>pb_path = Some ''upload.zip'', buffer = storage_sol\<rparr>,
          \<lparr>pb_path = Some ''upload.zip'', buffer = b_json\<rparr>}"
proof -
  let ?batch = "[\<lparr>pb_path = Some ''upload.zip'', buffer = outer_zip\<rparr>,
                 \<lparr>pb_path = Some ''1_Storage.sol'', buffer = storage_sol\<rparr>]"
  let ?S = "{outer_zip, inner_zip, storage_sol, b_json}"
  have nesting: "extractable E_ex rank_ex ?S"
    by (simp add: extractable_def rank_ex_def ex_defs)
  have batch: "buffer ` set ?batch \<subseteq> ?S" by simp
  have run: "findInputFiles E_ex ?batch =
      Some (Inr [\<lparr>pb_path = Some ''1_Storage.sol'', buffer = storage_sol\<rparr>,
                 \<lparr>pb_path = Some ''upload.zip'', buffer = storage_sol\<rparr>,
                 \<lparr>pb_path = Some ''upload.zip'', buffer = b_json\<rparr>])"
    by (simp add: expand_defs ex_defs)
  from findInputFiles_expands_every_archive [OF nesting batch]
  obtain inputFiles where "findInputFiles E_ex ?batch = Some (Inr inputFiles)"
    "set inputFiles = {g. \<exists>f\<in>set ?batch. expands_to E_ex f g}" by blast
  with run have "{g. \<exists>f\<in>set ?batch. expands_to E_ex f g} =
      {\<lparr>pb_path = Some ''1_Storage.sol'', buffer = storage_sol\<rparr>,
       \<lparr>pb_path = Some ''upload.zip'', buffer = storage_sol\<rparr>,
       \<lparr>pb_path = Some ''upload.zip'', buffer = b_json\<rparr>}"
    by auto
  with nesting run show ?thesis by blast
qed

text \<open>
  The claim as stated fails on an archive that holds an archive: the inner archive is
  expanded too, and the file it holds is in the result under the path of the outer one.
\<close>

theorem nested_archive_is_expanded:
  "AdmZip E_ex outer_zip = Zip (Some (Directory [File inner_zip, File storage_sol]))
   \<and> AdmZip E_ex inner_zip = Zip (Some (Directory [File b_json]))
   \<and> findInputFiles E_ex [\<lparr>pb_path = Some ''upload.zip'', buffer = outer_zip\<rparr>]
       = Some (Inr [\<lparr>pb_path = Some ''upload.zip'', buffer = storage_sol\<rparr>,
                    \<lparr>pb_path = Some ''upload.zip'', buffer = b_json\<rparr>])"
  by (simp add: expand_defs ex_defs)

subsection \<open>C9: fetched content is used again\<close>




subsection \<open>C10: one attempt for a path under \<^verbatim>\<open>@openzeppelin\<close>\<close>

text \<open>
  Claim C10 says that for a declared path that starts with \<^verbatim>\<open>@openzeppelin\<close> only the
  first declared URL with the prefix \<^verbatim>\<open>dweb:/ipfs/\<close> is dereferenced, and that when
  this attempt fails no other URL is tried and the source is recorded as missing. The
  first part holds, whatever the URLs are (lemma \<open>processFetching_openzeppelin\<close>), and so
  does the second when \<^verbatim>\<open>fetch\<close> answers (lemma \<open>failed_response_missing\<close>). When the
  promise of \<^verbatim>\<open>fetch\<close> is rejected, the source is not recorded as missing: the
  rejection leaves \<^verbatim>\<open>performFetch\<close>, \<^verbatim>\<open>rearrangeSources\<close> and \<^verbatim>\<open>checkFiles\<close>, and no
  contract is returned. In the batch below the metadata document declares
  \<^verbatim>\<open>browser/1_Storage.sol\<close>, which is in the batch, and a file under
  \<^verbatim>\<open>@openzeppelin\<close> with one IPFS URL, whose request is rejected.
\<close>

theorem checkFiles_rejected_gateway_aborts:
  "fetch_target ''@openzeppelin/contracts/math/SafeMath.sol''
       (Some (JArray [JString ''bzz-raw://e3b0c4'', JString ''dweb:/ipfs/QmUnreachable'']))
     = Inr (Some ''https://ipfs.infura.io:5001/api/v0/cat?arg=QmUnreachable'')
   \<and> fetch E_ex [] ''https://ipfs.infura.io:5001/api/v0/cat?arg=QmUnreachable'' = Rejected
   \<and> checkFiles E_ex [\<lparr>pb_path = Some ''metadata.json'', buffer = ipfs_json\<rparr>,
                      \<lparr>pb_path = Some ''1_Storage.sol'', buffer = storage_sol\<rparr>]
       = Some (Inl FetchRejected)"
  by (simp add: checkFiles_def expand_defs parse_files_def scan_defs run_defs fetch_target_def
      ex_defs)

end
